theory Spec2Isabelle
  imports Main "HOL-Library.Word" "HOL-Library.AList"
begin

unbundle bit_operations_syntax

section \<open>Data model of \<^verbatim>\<open>whisper/whisperv5/whisper.go\<close>\<close>

text \<open>
  Go's \<^verbatim>\<open>uint32\<close> and \<^verbatim>\<open>uint64\<close> are words: subtraction and addition wrap, and
  \<open><\<close> compares the unsigned values. \<^verbatim>\<open>common.Hash\<close> is an array of 32 bytes, that is a
  256-bit value. The current time \<^verbatim>\<open>uint32(time.Now().Unix())\<close> is an input \<open>now\<close> of the
  operations that read the clock.
\<close>

type_synonym byte = "8 word"
type_synonym bytes = "byte list"
type_synonym u32 = "32 word"
type_synonym u64 = "64 word"
type_synonym Hash = "256 word"

text \<open>
  The envelope. Its declaration (\<^verbatim>\<open>envelope.go\<close>) is outside the file verified here; the
  record has the fields \<^verbatim>\<open>add\<close> reads, the proof-of-work score \<open>pow\<close> that \<^verbatim>\<open>PoW()\<close> returns
  and the content hash \<open>hash\<close> that \<^verbatim>\<open>Hash()\<close> returns. The score is a \<^verbatim>\<open>float64\<close> in Go;
  only \<open><\<close> against the threshold is ever used, so the type of scores is any type \<open>'p\<close>
  with an order relation (no law of the order is assumed). Two envelopes may have the
  same hash: nothing is assumed of the hash function.
\<close>

record 'p Envelope =
  Version :: bytes
  Expiry :: u32
  TTL :: u32
  Salt :: bytes
  AESNonce :: bytes
  Data :: bytes
  pow :: 'p
  hash :: Hash

record ReceivedMessage =
  Payload :: bytes
  EnvelopeHash :: Hash

text \<open>
  \<^verbatim>\<open>ecdsa.PublicKey\<close> and \<^verbatim>\<open>ecdsa.PrivateKey\<close>: the big integers are pointers, \<open>None\<close> is
  \<^verbatim>\<open>nil\<close>. The private key embeds the public key.
\<close>

record PublicKey =
  X :: "int option"
  Y :: "int option"

record PrivateKey =
  PublicKey :: PublicKey
  D :: "int option"

text \<open>
  Errors returned by the operations, one constructor per \<^verbatim>\<open>fmt.Errorf\<close> of the file, and
  \<open>ExternalError\<close> for an error value handed over by a collaborator (\<^verbatim>\<open>crypto/rand\<close>,
  \<^verbatim>\<open>crypto.GenerateKey\<close>, \<^verbatim>\<open>DeriveOneTimeKey\<close>).
\<close>

datatype error =
    MessageCreatedInTheFuture
  | VeryOldMessage
  | HugeMessagesNotAllowed
  | OversizedVersion
  | OversizedAESNonce
  | OversizedSalt
  | KeyAlreadyExists string
  | CryptoRandFailed
  | MathRandFailed
  | FailedToDeriveValidKey
  | UnknownVersionError u64
  | ExternalError string

text \<open>The two \<^verbatim>\<open>panic\<close>s of \<^verbatim>\<open>NewIdentity\<close>.\<close>

datatype panic =
    PanicError error
  | PanicFailedToGenerateValidKey

text \<open>
  Constants and collaborator methods that \<^verbatim>\<open>whisper.go\<close> uses and other files of the
  package declare. They are parameters of the model: every theorem holds for all values
  of them.
  \<^item> \<open>SynchAllowance\<close> is an untyped Go constant, used in 32-bit expressions only: it
    is a 32-bit value here; the lengths are natural numbers;
  \<^item> \<open>powScore P e diff\<close> is the score that \<^verbatim>\<open>e.calculatePoW(diff)\<close> computes;
  \<^item> \<open>Ver P e\<close> is \<^verbatim>\<open>e.Ver()\<close>;
  \<^item> \<open>pbkdf2Key P key\<close> is \<^verbatim>\<open>pbkdf2.Key(key, nil, 65356, aesKeyLength, sha256.New)\<close>;
  \<^item> \<open>DeriveOneTimeKey P key salt version\<close> and \<open>pubKeyHex P pub\<close>
    (\<^verbatim>\<open>common.ToHex(crypto.FromECDSAPub(pub))\<close>) likewise.
\<close>

record 'p params =
  SynchAllowance :: u32
  MaxMessageLength :: nat
  AESNonceMaxLength :: nat
  saltLength :: nat
  aesKeyLength :: nat
  MinimumPoW :: 'p
  EnvelopeVersion :: u64
  messagesCode :: u64
  powScore :: "'p Envelope \<Rightarrow> u32 \<Rightarrow> 'p"
  Ver :: "'p Envelope \<Rightarrow> u64"
  pbkdf2Key :: "bytes \<Rightarrow> bytes"
  DeriveOneTimeKey :: "bytes \<Rightarrow> bytes \<Rightarrow> u64 \<Rightarrow> error + bytes"
  pubKeyHex :: "PublicKey \<Rightarrow> string"

text \<open>
  Envelopes are shared objects: \<^verbatim>\<open>add\<close> is given a pointer \<^verbatim>\<open>*Envelope\<close>, writes the
  recomputed score through it, and stores the pointer in the pool. So there is a store of
  the envelope objects, from addresses to their current values; a pointer is an address.
  (A \<^verbatim>\<open>nil\<close> pointer is not modelled.)
\<close>

type_synonym addr = nat
type_synonym 'p heap = "addr \<Rightarrow> 'p Envelope"

text \<open>
  The node. The three Go maps of the pool: \<open>envelopes\<close> and \<open>messages\<close> are only read,
  written and deleted at one key, so they are maps; \<open>envelopes\<close> holds the pointers of
  the pooled envelopes. \<open>expirations\<close> is iterated by \<^verbatim>\<open>expire\<close>, so it is an association
  list (of distinct keys) from the expiry time to the bucket, and a bucket
  (\<^verbatim>\<open>set.SetNonTS\<close>) is the list of its members. \<open>notified\<close> is the log of the goroutines
  \<^verbatim>\<open>go w.filters.NotifyWatchers(envelope, messageCode)\<close> spawned so far, each with the
  pointer it was given. The messages and the keys are never written after they are
  stored, so the maps hold their values. In the key maps \<open>None\<close> stands for an absent key
  as well as for a \<^verbatim>\<open>nil\<close> value: the file tests only \<^verbatim>\<open>!= nil\<close>, and never stores
  \<^verbatim>\<open>nil\<close>.
\<close>

record Whisper =
  privateKeys :: "string \<rightharpoonup> PrivateKey"
  symKeys :: "string \<rightharpoonup> bytes"
  envelopes :: "Hash \<rightharpoonup> addr"
  messages :: "Hash \<rightharpoonup> ReceivedMessage"
  expirations :: "(u32 \<times> Hash list) list"
  test :: bool
  notified :: "(addr \<times> u64) list"

definition NewWhisper :: "Whisper" where
  "NewWhisper =
     \<lparr>privateKeys = Map.empty, symKeys = Map.empty, envelopes = Map.empty,
      messages = Map.empty, expirations = [], test = False, notified = []\<rparr>"

section \<open>Key validation\<close>

definition ValidatePublicKey :: "PublicKey option \<Rightarrow> bool" where
  "ValidatePublicKey k =
     (case k of
        None \<Rightarrow> False
      | Some pk \<Rightarrow> X pk \<noteq> None \<and> Y pk \<noteq> None \<and> X pk \<noteq> Some 0 \<and> Y pk \<noteq> Some 0)"

definition validatePrivateKey :: "PrivateKey option \<Rightarrow> bool" where
  "validatePrivateKey k =
     (case k of
        None \<Rightarrow> False
      | Some sk \<Rightarrow>
          if D sk = None \<or> D sk = Some 0 then False
          else ValidatePublicKey (Some (PublicKey sk)))"

fun containsOnlyZeros :: "bytes \<Rightarrow> bool" where
  "containsOnlyZeros [] = True"
| "containsOnlyZeros (b # data) = (if b \<noteq> 0 then False else containsOnlyZeros data)"

definition validateSymmetricKey :: "bytes \<Rightarrow> bool" where
  "validateSymmetricKey k = (length k > 0 \<and> \<not> containsOnlyZeros k)"

fun bytesToIntLittleEndian_loop :: "bytes \<Rightarrow> u64 \<Rightarrow> u64 \<Rightarrow> u64" where
  "bytesToIntLittleEndian_loop [] mul res = res"
| "bytesToIntLittleEndian_loop (x # b) mul res =
     bytesToIntLittleEndian_loop b (mul * 256) (res + ucast x * mul)"

definition bytesToIntLittleEndian :: "bytes \<Rightarrow> u64" where
  "bytesToIntLittleEndian b = bytesToIntLittleEndian_loop b 1 0"

definition deriveKeyMaterial :: "'p params \<Rightarrow> bytes \<Rightarrow> u64 \<Rightarrow> error + bytes" where
  "deriveKeyMaterial P key version =
     (if version = 0 then Inr (pbkdf2Key P key) else Inl (UnknownVersionError version))"

section \<open>The key store\<close>

text \<open>
  \<^verbatim>\<open>crypto.GenerateKey\<close> returns a pair of a key pointer and an error. The entropy source
  is the sequence of the pairs its successive calls return; \<^verbatim>\<open>NewIdentity\<close> is given that
  sequence and returns, with its result and the node, the number of calls it made.
\<close>

type_synonym keygen = "nat \<Rightarrow> PrivateKey option \<times> error option"

definition NewIdentity ::
  "'p params \<Rightarrow> keygen \<Rightarrow> Whisper \<Rightarrow> (panic + PrivateKey) \<times> Whisper \<times> nat" where
  "NewIdentity P gen w =
     (let (key0, err0) = gen 0;
          retry = (err0 \<noteq> None \<or> \<not> validatePrivateKey key0);
          (key, err) = (if retry then gen 1 else (key0, err0));
          calls = (if retry then 2 else 1)
      in case err of
           Some e \<Rightarrow> (Inl (PanicError e), w, calls)
         | None \<Rightarrow>
             (case key of
                None \<Rightarrow> (Inl PanicFailedToGenerateValidKey, w, calls)
              | Some k \<Rightarrow>
                  if \<not> validatePrivateKey (Some k)
                  then (Inl PanicFailedToGenerateValidKey, w, calls)
                  else (Inr k,
                        w\<lparr>privateKeys := (privateKeys w)(pubKeyHex P (PublicKey k) \<mapsto> k)\<rparr>,
                        calls)))"

definition DeleteIdentity :: "string \<Rightarrow> Whisper \<Rightarrow> Whisper" where
  "DeleteIdentity key w = w\<lparr>privateKeys := (privateKeys w)(key := None)\<rparr>"

definition HasIdentity :: "Whisper \<Rightarrow> string \<Rightarrow> bool" where
  "HasIdentity w pubKey = (privateKeys w pubKey \<noteq> None)"

definition GetIdentity :: "Whisper \<Rightarrow> string \<Rightarrow> PrivateKey option" where
  "GetIdentity w pubKey = privateKeys w pubKey"

definition HasSymKey :: "Whisper \<Rightarrow> string \<Rightarrow> bool" where
  "HasSymKey w name = (symKeys w name \<noteq> None)"

definition DeleteSymKey :: "string \<Rightarrow> Whisper \<Rightarrow> Whisper" where
  "DeleteSymKey name w = w\<lparr>symKeys := (symKeys w)(name := None)\<rparr>"

definition GetSymKey :: "Whisper \<Rightarrow> string \<Rightarrow> bytes option" where
  "GetSymKey w name = symKeys w name"

text \<open>The loop \<^verbatim>\<open>for i := 0; i < size; i++ { buf[i] ^= buf2[i] }\<close> on two buffers of \<open>size\<close> bytes.\<close>

fun xorBuffers :: "bytes \<Rightarrow> bytes \<Rightarrow> bytes" where
  "xorBuffers (b # buf) (b2 # buf2) = (b XOR b2) # xorBuffers buf buf2"
| "xorBuffers buf buf2 = buf"

text \<open>
  \<^verbatim>\<open>GenerateSymKey\<close>. The two random sources are inputs: \<open>crand\<close> is what
  \<^verbatim>\<open>crand.Read(buf)\<close> does, an error or the stream of bytes it writes, and \<open>mrand\<close> is the
  stream \<^verbatim>\<open>randomize(buf2)\<close> writes; both buffers have \<open>size = aesKeyLength * 2\<close> bytes.
  \<open>GenerateSymKey_derive\<close> is the function up to line 186, before the lock is taken: it
  returns the error of the early return, or the derived key.
\<close>

definition GenerateSymKey_derive ::
  "'p params \<Rightarrow> error + (nat \<Rightarrow> byte) \<Rightarrow> (nat \<Rightarrow> byte) \<Rightarrow> error + bytes" where
  "GenerateSymKey_derive P crand mrand =
     (let size = aesKeyLength P * 2 in
      case crand of
        Inl err \<Rightarrow> Inl err
      | Inr src \<Rightarrow>
          let buf = map src [0..<size] in
          if \<not> validateSymmetricKey buf then Inl CryptoRandFailed
          else
            let buf2 = map mrand [0..<size] in
            if \<not> validateSymmetricKey buf2 then Inl MathRandFailed
            else
              let buf = xorBuffers buf buf2;
                  key = take (aesKeyLength P) buf;
                  salt = drop (aesKeyLength P) buf
              in case DeriveOneTimeKey P key salt (EnvelopeVersion P) of
                   Inl err \<Rightarrow> Inl err
                 | Inr derived \<Rightarrow>
                     if \<not> validateSymmetricKey derived then Inl FailedToDeriveValidKey
                     else Inr derived)"

definition GenerateSymKey ::
  "'p params \<Rightarrow> error + (nat \<Rightarrow> byte) \<Rightarrow> (nat \<Rightarrow> byte) \<Rightarrow> string \<Rightarrow> Whisper
     \<Rightarrow> (error + unit) \<times> Whisper" where
  "GenerateSymKey P crand mrand name w =
     (case GenerateSymKey_derive P crand mrand of
        Inl err \<Rightarrow> (Inl err, w)
      | Inr derived \<Rightarrow>
          if symKeys w name \<noteq> None then (Inl (KeyAlreadyExists name), w)
          else (Inr (), w\<lparr>symKeys := (symKeys w)(name \<mapsto> derived)\<rparr>))"

definition AddSymKey ::
  "'p params \<Rightarrow> string \<Rightarrow> bytes \<Rightarrow> Whisper \<Rightarrow> (error + unit) \<times> Whisper" where
  "AddSymKey P name key w =
     (if HasSymKey w name then (Inl (KeyAlreadyExists name), w)
      else
        case deriveKeyMaterial P key (EnvelopeVersion P) of
          Inl err \<Rightarrow> (Inl err, w)
        | Inr derived \<Rightarrow>
            if symKeys w name \<noteq> None then (Inl (KeyAlreadyExists name), w)
            else (Inr (), w\<lparr>symKeys := (symKeys w)(name \<mapsto> derived)\<rparr>))"

section \<open>Admission: \<^verbatim>\<open>add\<close> and \<^verbatim>\<open>postEvent\<close>\<close>

text \<open>
  Modelled from the spec: the methods of the envelope (\<^verbatim>\<open>envelope.go\<close> is not among the
  sources). The envelope exposes a stable content hash, a proof-of-work score and a
  recomputation of the score with a parameter; \<^verbatim>\<open>calculatePoW\<close> stores the recomputed score
  in the envelope, and changes nothing else of it.
\<close>

definition PoW :: "'p Envelope \<Rightarrow> 'p" where
  "PoW e = pow e"

definition Hash :: "'p Envelope \<Rightarrow> Hash" where
  "Hash e = hash e"

definition calculatePoW :: "'p params \<Rightarrow> 'p Envelope \<Rightarrow> u32 \<Rightarrow> 'p Envelope" where
  "calculatePoW P e diff = e\<lparr>pow := powScore P e diff\<rparr>"

text \<open>
  In \<^verbatim>\<open>postEvent\<close>, \<^verbatim>\<open>add\<close> and its parts, \<open>envelope\<close> is the pointer and \<open>hp\<close> the store:
  \<open>hp envelope\<close> is the envelope that the pointer points to.
\<close>

definition postEvent :: "'p params \<Rightarrow> 'p heap \<Rightarrow> addr \<Rightarrow> u64 \<Rightarrow> Whisper \<Rightarrow> Whisper" where
  "postEvent P hp envelope messageCode w =
     (if Ver P (hp envelope) \<le> EnvelopeVersion P
      then w\<lparr>notified := notified w @ [(envelope, messageCode)]\<rparr>
      else w)"

text \<open>
  Lines 327 to 332: the bucket of the expiry time is created when it is missing, and the
  hash is added to it unless it is a member. (The \<open>None\<close> case of the second lookup cannot
  happen; in Go it would be a nil dereference.)
\<close>

definition addExpiration :: "u32 \<Rightarrow> Hash \<Rightarrow> (u32 \<times> Hash list) list \<Rightarrow> (u32 \<times> Hash list) list" where
  "addExpiration t h exps =
     (let exps1 = (if map_of exps t = None then AList.update t [] exps else exps) in
      case map_of exps1 t of
        None \<Rightarrow> exps1
      | Some s \<Rightarrow> if h \<notin> set s then AList.update t (s @ [h]) exps1 else exps1)"

text \<open>
  Lines 321 to 343 of \<^verbatim>\<open>add\<close>: the pool and the dispatch. Line 326 stores the pointer.
\<close>

definition add_pool ::
  "'p params \<Rightarrow> addr \<Rightarrow> 'p heap \<Rightarrow> Whisper \<Rightarrow> (error + unit) \<times> 'p heap \<times> Whisper" where
  "add_pool P envelope hp wh =
     (let h = Hash (hp envelope);
          alreadyCached = (envelopes wh h \<noteq> None)
      in if alreadyCached then (Inr (), hp, wh)
         else (Inr (), hp,
               postEvent P hp envelope (messagesCode P)
                 (wh\<lparr>envelopes := (envelopes wh)(h \<mapsto> envelope),
                     expirations := addExpiration (Expiry (hp envelope)) h (expirations wh)\<rparr>)))"

text \<open>Lines 290 to 319 of \<^verbatim>\<open>add\<close>: expiry, sizes and the proof-of-work gate.\<close>

definition add_checks ::
  "('p::ord) params \<Rightarrow> u32 \<Rightarrow> addr \<Rightarrow> 'p heap \<Rightarrow> Whisper
     \<Rightarrow> (error + unit) \<times> 'p heap \<times> Whisper" where
  "add_checks P now envelope hp wh =
     (if Expiry (hp envelope) < now then
        (if Expiry (hp envelope) + SynchAllowance P * 2 < now
         then (Inl VeryOldMessage, hp, wh)
         else (Inr (), hp, wh))
      else if length (Data (hp envelope)) > MaxMessageLength P
        then (Inl HugeMessagesNotAllowed, hp, wh)
      else if length (Version (hp envelope)) > 4
        then (Inl OversizedVersion, hp, wh)
      else if length (AESNonce (hp envelope)) > AESNonceMaxLength P
        then (Inl OversizedAESNonce, hp, wh)
      else if length (Salt (hp envelope)) > saltLength P
        then (Inl OversizedSalt, hp, wh)
      else if PoW (hp envelope) < MinimumPoW P \<and> \<not> test wh
        then (Inr (), hp, wh)
      else add_pool P envelope hp wh)"

text \<open>
  \<^verbatim>\<open>add\<close>, from line 277. The result is the returned error (\<open>Inr ()\<close> is \<^verbatim>\<open>nil\<close>), the
  store and the node. Line 286 writes the recomputed score into the object that the
  pointer points to, whether the pool holds that object or not.
\<close>

definition add ::
  "('p::ord) params \<Rightarrow> u32 \<Rightarrow> addr \<Rightarrow> 'p heap \<Rightarrow> Whisper
     \<Rightarrow> (error + unit) \<times> 'p heap \<times> Whisper" where
  "add P now envelope hp wh =
     (let sent = Expiry (hp envelope) - TTL (hp envelope) in
      if sent > now then
        (if sent - SynchAllowance P > now
         then (Inl MessageCreatedInTheFuture, hp, wh)
         else add_checks P now envelope
                (hp(envelope := calculatePoW P (hp envelope) (sent - now + 1))) wh)
      else add_checks P now envelope hp wh)"

definition Send ::
  "('p::ord) params \<Rightarrow> u32 \<Rightarrow> addr \<Rightarrow> 'p heap \<Rightarrow> Whisper
     \<Rightarrow> (error + unit) \<times> 'p heap \<times> Whisper" where
  "Send P now envelope hp w = add P now envelope hp w"

section \<open>The sweep: \<^verbatim>\<open>expire\<close>\<close>

text \<open>\<^verbatim>\<open>hashSet.Each\<close> with the two deletions.\<close>

fun dumpExpired :: "Hash list \<Rightarrow> Whisper \<Rightarrow> Whisper" where
  "dumpExpired [] w = w"
| "dumpExpired (v # vs) w =
     dumpExpired vs (w\<lparr>envelopes := (envelopes w)(v := None), messages := (messages w)(v := None)\<rparr>)"

text \<open>
  The loop over the entries of \<^verbatim>\<open>w.expirations\<close>, in the order of the list;
  \<^verbatim>\<open>w.expirations[then].Clear()\<close> empties the bucket stored at the key.
\<close>

fun expire_loop :: "u32 \<Rightarrow> (u32 \<times> Hash list) list \<Rightarrow> Whisper \<Rightarrow> Whisper" where
  "expire_loop now [] w = w"
| "expire_loop now ((thn, hashSet) # rest) w =
     (if thn > now then expire_loop now rest w
      else
        let w1 = dumpExpired hashSet w
        in expire_loop now rest (w1\<lparr>expirations := AList.update thn [] (expirations w1)\<rparr>))"

definition expire :: "u32 \<Rightarrow> Whisper \<Rightarrow> Whisper" where
  "expire now w = expire_loop now (expirations w) w"

definition addDecryptedMessage :: "ReceivedMessage \<Rightarrow> Whisper \<Rightarrow> Whisper" where
  "addDecryptedMessage msg w = w\<lparr>messages := (messages w)(EnvelopeHash msg \<mapsto> msg)\<rparr>"

text \<open>
  The states that the store and the node can be in: any store with \<^verbatim>\<open>NewWhisper\<close>, then
  any sequence of \<^verbatim>\<open>add\<close>, \<^verbatim>\<open>expire\<close> and \<^verbatim>\<open>addDecryptedMessage\<close>, at any times and on
  any arguments; between them, an envelope that the pool does not hold may be created
  or changed by its owner. (An envelope that the pool holds is written by line 286
  only.)
\<close>

inductive reachable :: "('p::ord) params \<Rightarrow> 'p heap \<Rightarrow> Whisper \<Rightarrow> bool"
  for P :: "'p params" where
  reachable_init: "reachable P hp NewWhisper"
| reachable_new: "reachable P hp w \<Longrightarrow> a \<notin> ran (envelopes w) \<Longrightarrow> reachable P (hp(a := e)) w"
| reachable_add:
    "reachable P hp w \<Longrightarrow>
     reachable P (fst (snd (add P now envelope hp w))) (snd (snd (add P now envelope hp w)))"
| reachable_expire: "reachable P hp w \<Longrightarrow> reachable P hp (expire now w)"
| reachable_addDecryptedMessage: "reachable P hp w \<Longrightarrow> reachable P hp (addDecryptedMessage msg w)"

section \<open>Auxiliary notions for the proofs\<close>

text \<open>
  The consistency of the pool with its expiration index: the keys of the index are
  distinct; every pooled envelope is pooled at its hash and listed in the bucket of its
  expiry time; every hash listed in a bucket is that of a pooled envelope that expires
  at the time of the bucket; no bucket lists a hash twice.
\<close>

definition pool_inv :: "'p heap \<Rightarrow> Whisper \<Rightarrow> bool" where
  "pool_inv hp w \<longleftrightarrow>
     distinct (map fst (expirations w))
   \<and> (\<forall>h a. envelopes w h = Some a \<longrightarrow>
         hash (hp a) = h
       \<and> (\<exists>s. map_of (expirations w) (Expiry (hp a)) = Some s \<and> h \<in> set s))
   \<and> (\<forall>t s h. map_of (expirations w) t = Some s \<and> h \<in> set s \<longrightarrow>
         (\<exists>a. envelopes w h = Some a \<and> Expiry (hp a) = t))
   \<and> (\<forall>t s. map_of (expirations w) t = Some s \<longrightarrow> distinct s)"

text \<open>The hashes listed in the buckets at or before \<open>now\<close>.\<close>

definition staleHashes :: "u32 \<Rightarrow> (u32 \<times> Hash list) list \<Rightarrow> Hash set" where
  "staleHashes now es = {h. \<exists>t s. (t, s) \<in> set es \<and> t \<le> now \<and> h \<in> set s}"

text \<open>
  The path of an envelope through \<^verbatim>\<open>add\<close>. \<open>scoredEnvelope\<close> is the envelope as the
  proof-of-work gate sees it: its score is recomputed when it is dated in the future.
  \<open>reachesPoWGate\<close> says that no check before the gate (lines 281 to 314) returns;
  \<open>admitted\<close> adds that the gate lets the envelope through.
\<close>

definition scoredEnvelope :: "'p params \<Rightarrow> u32 \<Rightarrow> 'p Envelope \<Rightarrow> 'p Envelope" where
  "scoredEnvelope P now e =
     (if now < Expiry e - TTL e then calculatePoW P e (Expiry e - TTL e - now + 1) else e)"

definition reachesPoWGate :: "'p params \<Rightarrow> u32 \<Rightarrow> 'p Envelope \<Rightarrow> bool" where
  "reachesPoWGate P now e \<longleftrightarrow>
     \<not> (now < Expiry e - TTL e \<and> now < Expiry e - TTL e - SynchAllowance P)
   \<and> \<not> Expiry e < now
   \<and> length (Data e) \<le> MaxMessageLength P
   \<and> length (Version e) \<le> 4
   \<and> length (AESNonce e) \<le> AESNonceMaxLength P
   \<and> length (Salt e) \<le> saltLength P"

definition admitted :: "('p::ord) params \<Rightarrow> u32 \<Rightarrow> 'p Envelope \<Rightarrow> Whisper \<Rightarrow> bool" where
  "admitted P now e wh \<longleftrightarrow>
     reachesPoWGate P now e \<and> (test wh \<or> \<not> PoW (scoredEnvelope P now e) < MinimumPoW P)"

text \<open>
  The store after \<^verbatim>\<open>add\<close>: line 286 is reached by an envelope that is dated in the future
  within the allowance, and writes its score.
\<close>

definition storeAfterAdd :: "'p params \<Rightarrow> u32 \<Rightarrow> addr \<Rightarrow> 'p heap \<Rightarrow> 'p heap" where
  "storeAfterAdd P now a hp =
     (if now < Expiry (hp a) - TTL (hp a)
         \<and> \<not> now < Expiry (hp a) - TTL (hp a) - SynchAllowance P
      then hp(a := calculatePoW P (hp a) (Expiry (hp a) - TTL (hp a) - now + 1))
      else hp)"

text \<open>
  A sample instance of the parameters, with integer scores, and sample inputs, on which
  the theorems are evaluated.
\<close>

definition exampleParams :: "int params" where
  "exampleParams =
     \<lparr>SynchAllowance = 10, MaxMessageLength = 65535, AESNonceMaxLength = 12, saltLength = 12,
      aesKeyLength = 2, MinimumPoW = 10, EnvelopeVersion = 0, messagesCode = 1,
      powScore = (\<lambda>e diff. 65536 div (int (unat (TTL e + diff)) + 1)),
      Ver = (\<lambda>e. bytesToIntLittleEndian (Version e)),
      pbkdf2Key = (\<lambda>key. take 2 (key @ [1, 1])),
      DeriveOneTimeKey =
        (\<lambda>key salt version.
           if version = 0 then Inr (xorBuffers key salt) else Inl (UnknownVersionError version)),
      pubKeyHex = (\<lambda>pub. ''0x04'')\<rparr>"

definition exampleEnvelope :: "int Envelope" where
  "exampleEnvelope =
     \<lparr>Version = [], Expiry = 1700000060, TTL = 50, Salt = [1, 2, 3], AESNonce = [4, 5, 6],
      Data = [7, 8, 9], pow = 100, hash = 11259375\<rparr>"

definition exampleMessage :: ReceivedMessage where
  "exampleMessage = \<lparr>Payload = [104, 105], EnvelopeHash = 11259375\<rparr>"

definition exampleKey :: PrivateKey where
  "exampleKey = \<lparr>PublicKey = \<lparr>X = Some 5, Y = Some 7\<rparr>, D = Some 3\<rparr>"

text \<open>
  A sample store: an envelope with a longer time to live at the address 2, which says it
  was sent at the time 1700000010, and the sample envelope at every other address.
  \<open>exampleNode\<close> is the node after \<^verbatim>\<open>add\<close> of the envelope at the address 3 at the time
  1700000000, ten seconds before the envelope says it was sent, and \<open>exampleStore1\<close> the
  store then.
\<close>

definition exampleStore :: "int heap" where
  "exampleStore = (\<lambda>a. exampleEnvelope)(2 := exampleEnvelope\<lparr>Expiry := 1700006555, TTL := 6545, hash := 2\<rparr>)"

definition exampleStore1 :: "int heap" where
  "exampleStore1 = fst (snd (add exampleParams 1700000000 3 exampleStore NewWhisper))"

definition exampleNode :: Whisper where
  "exampleNode = snd (snd (add exampleParams 1700000000 3 exampleStore NewWhisper))"





section \<open>Lemmas about the operations\<close>

lemma staleHashes_Nil [simp]: "staleHashes now [] = {}"
  by (simp add: staleHashes_def)

lemma staleHashes_Cons [simp]:
  "staleHashes now ((t, s) # es) = (if t \<le> now then set s else {}) \<union> staleHashes now es"
  by (auto simp: staleHashes_def)

lemma dumpExpired_eq:
  "dumpExpired hs w =
     w\<lparr>envelopes := (\<lambda>h. if h \<in> set hs then None else envelopes w h),
       messages := (\<lambda>h. if h \<in> set hs then None else messages w h)\<rparr>"
  by (induction hs arbitrary: w) (auto simp: fun_eq_iff)

lemma expire_loop_Cons:
  "expire_loop now ((thn, hashSet) # rest) w =
     (if thn \<le> now
      then expire_loop now rest
             (w\<lparr>envelopes := (\<lambda>h. if h \<in> set hashSet then None else envelopes w h),
                messages := (\<lambda>h. if h \<in> set hashSet then None else messages w h),
                expirations := AList.update thn [] (expirations w)\<rparr>)
      else expire_loop now rest w)"
  by (simp add: dumpExpired_eq Let_def not_less)

lemma expire_loop_envelopes:
  "envelopes (expire_loop now es w) h = (if h \<in> staleHashes now es then None else envelopes w h)"
proof (induction es arbitrary: w)
  case Nil
  show ?case by simp
next
  case (Cons p es)
  obtain thn hashSet where p: "p = (thn, hashSet)" by (cases p)
  show ?case
    unfolding p expire_loop_Cons by (simp add: Cons.IH)
qed

lemma expire_loop_messages:
  "messages (expire_loop now es w) h = (if h \<in> staleHashes now es then None else messages w h)"
proof (induction es arbitrary: w)
  case Nil
  show ?case by simp
next
  case (Cons p es)
  obtain thn hashSet where p: "p = (thn, hashSet)" by (cases p)
  show ?case
    unfolding p expire_loop_Cons by (simp add: Cons.IH)
qed

lemma expire_loop_map_of:
  "map_of (expirations (expire_loop now es w)) t =
     (if t \<le> now \<and> t \<in> fst ` set es then Some [] else map_of (expirations w) t)"
proof (induction es arbitrary: w)
  case Nil
  show ?case by simp
next
  case (Cons p es)
  obtain thn hashSet where p: "p = (thn, hashSet)" by (cases p)
  show ?case
    unfolding p expire_loop_Cons by (auto simp add: Cons.IH update_conv')
qed

lemma expire_loop_keys:
  "fst ` set es \<subseteq> fst ` set (expirations w) \<Longrightarrow>
     map fst (expirations (expire_loop now es w)) = map fst (expirations w)"
proof (induction es arbitrary: w)
  case Nil
  show ?case by simp
next
  case (Cons p es)
  obtain thn hashSet where p: "p = (thn, hashSet)" by (cases p)
  from Cons.prems have thn: "thn \<in> fst ` set (expirations w)" and
    es: "fst ` set es \<subseteq> fst ` set (expirations w)"
    by (auto simp: p)
  let ?w = "w\<lparr>envelopes := (\<lambda>h. if h \<in> set hashSet then None else envelopes w h),
                messages := (\<lambda>h. if h \<in> set hashSet then None else messages w h),
                expirations := AList.update thn [] (expirations w)\<rparr>"
  have keys: "map fst (expirations ?w) = map fst (expirations w)"
    using thn by (simp add: update_keys)
  then have "fst ` set es \<subseteq> fst ` set (expirations ?w)"
    using es by (metis list.set_map)
  then have "map fst (expirations (expire_loop now es ?w)) = map fst (expirations w)"
    using Cons.IH[of ?w] keys by simp
  then show ?case
    unfolding p expire_loop_Cons using Cons.IH[OF es] by simp
qed


text \<open>
  Go iterates over a map, and over the members of a set, in an order that is not
  specified. The result of the sweep does not depend on the order: two lists of the same
  entries give the same maps.
\<close>

lemma staleHashes_cong: "set es = set es' \<Longrightarrow> staleHashes now es = staleHashes now es'"
  by (simp add: staleHashes_def)

lemma dumpExpired_order: "set hs = set hs' \<Longrightarrow> dumpExpired hs w = dumpExpired hs' w"
  by (simp add: dumpExpired_eq)

lemma expire_loop_order:
  assumes "set es = set es'"
  shows "envelopes (expire_loop now es w) = envelopes (expire_loop now es' w)"
    and "messages (expire_loop now es w) = messages (expire_loop now es' w)"
    and "map_of (expirations (expire_loop now es w)) = map_of (expirations (expire_loop now es' w))"
proof -
  show "envelopes (expire_loop now es w) = envelopes (expire_loop now es' w)"
    by (rule ext) (simp add: expire_loop_envelopes staleHashes_cong[OF assms])
  show "messages (expire_loop now es w) = messages (expire_loop now es' w)"
    by (rule ext) (simp add: expire_loop_messages staleHashes_cong[OF assms])
  show "map_of (expirations (expire_loop now es w)) = map_of (expirations (expire_loop now es' w))"
    by (rule ext) (simp add: expire_loop_map_of assms)
qed

lemma map_of_addExpiration:
  "map_of (addExpiration t h exps) =
     (map_of exps)(t \<mapsto> (case map_of exps t of None \<Rightarrow> [h] | Some s \<Rightarrow> if h \<in> set s then s else s @ [h]))"
  by (auto simp: addExpiration_def Let_def update_conv' fun_eq_iff split: option.splits)

lemma distinct_addExpiration:
  "distinct (map fst exps) \<Longrightarrow> distinct (map fst (addExpiration t h exps))"
  by (auto simp: addExpiration_def Let_def distinct_update split: option.splits)

lemma staleHashes_map_of:
  assumes "distinct (map fst es)"
  shows "h \<in> staleHashes now es \<longleftrightarrow> (\<exists>t s. map_of es t = Some s \<and> t \<le> now \<and> h \<in> set s)"
  unfolding staleHashes_def using map_of_eq_Some_iff[OF assms] by blast

lemma word_pred_less: "(e::u32) < now \<Longrightarrow> now - 1 < now"
  by unat_arith

lemma word_within_allowance:
  fixes a now e :: u32
  assumes a: "0 < a" and b: "unat now + 2 * unat a \<le> 2 ^ 32" and c: "e < now"
  shows "\<not> now - 1 + a * 2 < now"
proof -
  have n: "0 < unat now" using c by unat_arith
  have a': "0 < unat a" using a by unat_arith
  have m: "unat (a * 2) = 2 * unat a" using b n by (simp add: unat_word_ariths)
  have "unat (now - 1) = unat now - 1" using n by (simp add: unat_sub_if')
  then have "unat (now - 1 + a * 2) = unat now - 1 + 2 * unat a"
    using m b n by (simp add: unat_word_ariths(1))
  then show ?thesis using a' n by (simp add: word_less_nat_alt)
qed

lemma calculatePoW_fields [simp]:
  "Expiry (calculatePoW P e d) = Expiry e" "TTL (calculatePoW P e d) = TTL e"
  "Data (calculatePoW P e d) = Data e" "Version (calculatePoW P e d) = Version e"
  "AESNonce (calculatePoW P e d) = AESNonce e" "Salt (calculatePoW P e d) = Salt e"
  "hash (calculatePoW P e d) = hash e" "pow (calculatePoW P e d) = powScore P e d"
  by (simp_all add: calculatePoW_def)

lemma scoredEnvelope_fields [simp]:
  "Expiry (scoredEnvelope P now e) = Expiry e" "TTL (scoredEnvelope P now e) = TTL e"
  "Data (scoredEnvelope P now e) = Data e" "Version (scoredEnvelope P now e) = Version e"
  "AESNonce (scoredEnvelope P now e) = AESNonce e" "Salt (scoredEnvelope P now e) = Salt e"
  "hash (scoredEnvelope P now e) = hash e"
  by (simp_all add: scoredEnvelope_def)

lemma expire_keys: "map fst (expirations (expire now w)) = map fst (expirations w)"
  by (simp add: expire_def expire_loop_keys)

lemma expire_envelopes:
  "envelopes (expire now w) h =
     (if h \<in> staleHashes now (expirations w) then None else envelopes w h)"
  by (simp add: expire_def expire_loop_envelopes)

lemma expire_messages:
  "messages (expire now w) h =
     (if h \<in> staleHashes now (expirations w) then None else messages w h)"
  by (simp add: expire_def expire_loop_messages)

lemma expire_map_of:
  "map_of (expirations (expire now w)) t =
     (if t \<le> now \<and> t \<in> fst ` set (expirations w) then Some [] else map_of (expirations w) t)"
  by (simp add: expire_def expire_loop_map_of)

lemma expire_unlisted:
  assumes Dk: "distinct (map fst (expirations w))"
    and un: "\<And>t s. (t, s) \<in> set (expirations w) \<Longrightarrow> h \<notin> set s"
  shows "messages (expire now w) h = messages w h"
    and "distinct (map fst (expirations (expire now w)))"
    and "\<And>t s. (t, s) \<in> set (expirations (expire now w)) \<Longrightarrow> h \<notin> set s"
proof -
  from un have "h \<notin> staleHashes now (expirations w)" by (auto simp: staleHashes_def)
  then show "messages (expire now w) h = messages w h" by (simp add: expire_messages)
  show Dk': "distinct (map fst (expirations (expire now w)))" using Dk by (simp add: expire_keys)
  fix t s
  assume "(t, s) \<in> set (expirations (expire now w))"
  with Dk' have "map_of (expirations (expire now w)) t = Some s" by simp
  then have "s = [] \<or> map_of (expirations w) t = Some s"
    by (auto simp: expire_map_of split: if_splits)
  then show "h \<notin> set s"
  proof
    assume "s = []"
    then show ?thesis by simp
  next
    assume "map_of (expirations w) t = Some s"
    then have "(t, s) \<in> set (expirations w)" by (rule map_of_SomeD)
    then show ?thesis by (rule un)
  qed
qed

lemma sweeps_unlisted:
  assumes "distinct (map fst (expirations w))"
    and "\<And>t s. (t, s) \<in> set (expirations w) \<Longrightarrow> h \<notin> set s"
  shows "messages (fold expire nows w) h = messages w h"
  using assms
proof (induction nows arbitrary: w)
  case Nil
  show ?case by simp
next
  case (Cons now nows)
  have "messages (fold expire nows (expire now w)) h = messages (expire now w) h"
    using expire_unlisted(2,3)[OF Cons.prems] by (rule Cons.IH)
  with expire_unlisted(1)[OF Cons.prems] show ?case by simp
qed

lemma add_checks_store: "fst (snd (add_checks P now a hp wh)) = hp"
  by (simp add: add_checks_def add_pool_def Let_def)

lemma add_checks_not_future: "fst (add_checks P now a hp wh) \<noteq> Inl MessageCreatedInTheFuture"
  by (simp add: add_checks_def add_pool_def Let_def)

lemma add_store: "fst (snd (add P now a hp wh)) = storeAfterAdd P now a hp"
  by (simp add: add_def Let_def storeAfterAdd_def add_checks_store)


lemma storeAfterAdd_fields [simp]:
  "Expiry (storeAfterAdd P now a hp x) = Expiry (hp x)"
  "TTL (storeAfterAdd P now a hp x) = TTL (hp x)"
  "hash (storeAfterAdd P now a hp x) = hash (hp x)"
  "Version (storeAfterAdd P now a hp x) = Version (hp x)"
  "Data (storeAfterAdd P now a hp x) = Data (hp x)"
  "AESNonce (storeAfterAdd P now a hp x) = AESNonce (hp x)"
  "Salt (storeAfterAdd P now a hp x) = Salt (hp x)"
  by (simp_all add: storeAfterAdd_def)

lemma storeAfterAdd_scored:
  "\<not> (now < Expiry (hp a) - TTL (hp a) \<and> now < Expiry (hp a) - TTL (hp a) - SynchAllowance P)
   \<Longrightarrow> storeAfterAdd P now a hp = hp(a := scoredEnvelope P now (hp a))"
  by (auto simp: storeAfterAdd_def scoredEnvelope_def)

lemma postEvent_fields:
  "envelopes (postEvent P hp a c w) = envelopes w"
  "messages (postEvent P hp a c w) = messages w"
  "expirations (postEvent P hp a c w) = expirations w"
  "test (postEvent P hp a c w) = test w"
  "privateKeys (postEvent P hp a c w) = privateKeys w"
  "symKeys (postEvent P hp a c w) = symKeys w"
  by (simp_all add: postEvent_def)

lemma add_eq_add_checks:
  fixes P :: "('p::ord) params"
  assumes "\<not> (now < Expiry (hp a) - TTL (hp a)
              \<and> now < Expiry (hp a) - TTL (hp a) - SynchAllowance P)"
  shows "add P now a hp wh = add_checks P now a (hp(a := scoredEnvelope P now (hp a))) wh"
  using assms by (auto simp: add_def Let_def scoredEnvelope_def)

lemma add_rejected:
  fixes P :: "('p::ord) params"
  assumes "now < Expiry (hp a) - TTL (hp a) \<and> now < Expiry (hp a) - TTL (hp a) - SynchAllowance P"
  shows "add P now a hp wh = (Inl MessageCreatedInTheFuture, hp, wh)"
  using assms by (simp add: add_def Let_def)

lemma add_checks_at_gate:
  fixes P :: "('p::ord) params"
  assumes "reachesPoWGate P now (hp a)"
  shows "add_checks P now a hp wh =
     (if PoW (hp a) < MinimumPoW P \<and> \<not> test wh then (Inr (), hp, wh)
      else add_pool P a hp wh)"
  using assms by (auto simp: add_checks_def reachesPoWGate_def)

lemma reachesPoWGate_scored:
  "reachesPoWGate P now (scoredEnvelope P now' e) = reachesPoWGate P now e"
  by (simp add: reachesPoWGate_def)

lemma add_reachesPoWGate:
  fixes P :: "('p::ord) params"
  assumes "reachesPoWGate P now (hp a)"
  shows "add P now a hp wh =
     (if PoW (scoredEnvelope P now (hp a)) < MinimumPoW P \<and> \<not> test wh
      then (Inr (), hp(a := scoredEnvelope P now (hp a)), wh)
      else add_pool P a (hp(a := scoredEnvelope P now (hp a))) wh)"
proof -
  from assms have "\<not> (now < Expiry (hp a) - TTL (hp a)
              \<and> now < Expiry (hp a) - TTL (hp a) - SynchAllowance P)"
    by (simp add: reachesPoWGate_def)
  moreover have "reachesPoWGate P now ((hp(a := scoredEnvelope P now (hp a))) a)"
    using assms by (simp add: reachesPoWGate_scored)
  ultimately show ?thesis
    by (simp add: add_eq_add_checks add_checks_at_gate)
qed



lemma add_pool_cached:
  "envelopes wh (Hash (hp a)) \<noteq> None \<Longrightarrow> add_pool P a hp wh = (Inr (), hp, wh)"
  by (simp add: add_pool_def Let_def)

lemma add_pool_fresh:
  "envelopes wh (Hash (hp a)) = None \<Longrightarrow>
   add_pool P a hp wh =
     (Inr (), hp,
      postEvent P hp a (messagesCode P)
        (wh\<lparr>envelopes := (envelopes wh)(Hash (hp a) \<mapsto> a),
            expirations := addExpiration (Expiry (hp a)) (Hash (hp a)) (expirations wh)\<rparr>))"
  by (simp add: add_pool_def Let_def)

lemma add_pool_result: "fst (add_pool P a hp wh) = Inr ()"
  by (simp add: add_pool_def Let_def)

lemma add_pool_pooled: "envelopes (snd (snd (add_pool P a hp wh))) (Hash (hp a)) \<noteq> None"
  by (simp add: add_pool_def Let_def postEvent_fields)

text \<open>
  What \<^verbatim>\<open>add\<close> does to the node: nothing, or it inserts the pointer at the hash of the
  envelope, which was not pooled and, without test mode, has a score that is not below
  the threshold at that moment.
\<close>

lemma add_cases:
  fixes P :: "('p::ord) params"
  obtains (unchanged) "snd (snd (add P now a hp wh)) = wh"
  | (inserted) "envelopes wh (hash (hp a)) = None"
      "test wh \<or> \<not> PoW (storeAfterAdd P now a hp a) < MinimumPoW P"
      "snd (snd (add P now a hp wh)) =
         postEvent P (storeAfterAdd P now a hp) a (messagesCode P)
           (wh\<lparr>envelopes := (envelopes wh)(hash (hp a) \<mapsto> a),
               expirations := addExpiration (Expiry (hp a)) (hash (hp a)) (expirations wh)\<rparr>)"
proof -
  have pool: "snd (snd (add_checks P now a h' wh)) = wh \<or>
      (envelopes wh (hash (h' a)) = None \<and> (test wh \<or> \<not> PoW (h' a) < MinimumPoW P) \<and>
       snd (snd (add_checks P now a h' wh)) =
         postEvent P h' a (messagesCode P)
           (wh\<lparr>envelopes := (envelopes wh)(hash (h' a) \<mapsto> a),
               expirations := addExpiration (Expiry (h' a)) (hash (h' a)) (expirations wh)\<rparr>))" for h'
    by (auto simp: add_checks_def add_pool_def Let_def Hash_def)
  show thesis
  proof (cases "now < Expiry (hp a) - TTL (hp a) \<and> now < Expiry (hp a) - TTL (hp a) - SynchAllowance P")
    case True
    then have "snd (snd (add P now a hp wh)) = wh" by (simp add: add_rejected)
    then show thesis by (rule unchanged)
  next
    case False
    let ?h = "storeAfterAdd P now a hp"
    from False have "add P now a hp wh = add_checks P now a ?h wh"
      by (simp add: add_eq_add_checks storeAfterAdd_scored)
    with pool[of ?h] show thesis using unchanged inserted by auto
  qed
qed

lemma pool_inv_postEvent: "pool_inv hp' (postEvent P hp a c w) = pool_inv hp' w"
  by (simp add: pool_inv_def postEvent_fields)

lemma pool_inv_NewWhisper: "pool_inv hp NewWhisper"
  by (simp add: pool_inv_def NewWhisper_def)

lemma pool_inv_store:
  assumes "pool_inv hp w"
    and "\<And>x. x \<in> ran (envelopes w) \<Longrightarrow> Expiry (hp' x) = Expiry (hp x) \<and> hash (hp' x) = hash (hp x)"
  shows "pool_inv hp' w"
proof -
  have eq: "Expiry (hp' x) = Expiry (hp x) \<and> hash (hp' x) = hash (hp x)" if "envelopes w h = Some x" for h x
    using that assms(2)[of x] by (auto simp: ran_def)
  have I: "\<And>h a. envelopes w h = Some a \<Longrightarrow>
         hash (hp a) = h \<and> (\<exists>s. map_of (expirations w) (Expiry (hp a)) = Some s \<and> h \<in> set s)"
    using assms(1) unfolding pool_inv_def by blast
  have J: "\<And>t s h. map_of (expirations w) t = Some s \<Longrightarrow> h \<in> set s \<Longrightarrow>
         \<exists>a. envelopes w h = Some a \<and> Expiry (hp a) = t"
    using assms(1) unfolding pool_inv_def by blast
  have Dk: "distinct (map fst (expirations w))" using assms(1) unfolding pool_inv_def by blast
  have Db: "\<And>t s. map_of (expirations w) t = Some s \<Longrightarrow> distinct s"
    using assms(1) unfolding pool_inv_def by blast
  show ?thesis
    unfolding pool_inv_def
  proof (intro conjI allI impI)
    show "distinct (map fst (expirations w))" by (rule Dk)
  next
    fix h a assume a: "envelopes w h = Some a"
    from I[OF a] eq[OF a] show "hash (hp' a) = h" by simp
    from I[OF a] eq[OF a]
    show "\<exists>s. map_of (expirations w) (Expiry (hp' a)) = Some s \<and> h \<in> set s" by simp
  next
    fix t s h assume "map_of (expirations w) t = Some s \<and> h \<in> set s"
    then obtain a where a: "envelopes w h = Some a" "Expiry (hp a) = t" using J by blast
    with eq[OF a(1)] show "\<exists>a. envelopes w h = Some a \<and> Expiry (hp' a) = t" by simp
  next
    fix t s assume "map_of (expirations w) t = Some s"
    then show "distinct s" by (rule Db)
  qed
qed

lemma pool_inv_insert:
  assumes inv: "pool_inv hp wh" and fresh: "envelopes wh h = None" and hsh: "hash (hp a) = h"
  shows "pool_inv hp (wh\<lparr>envelopes := (envelopes wh)(h \<mapsto> a),
                         expirations := addExpiration (Expiry (hp a)) h (expirations wh)\<rparr>)"
proof -
  let ?B = "map_of (expirations wh)"
  let ?t = "Expiry (hp a)"
  let ?w = "wh\<lparr>envelopes := (envelopes wh)(h \<mapsto> a),
               expirations := addExpiration (Expiry (hp a)) h (expirations wh)\<rparr>"
  define s0 where "s0 = (case ?B ?t of None \<Rightarrow> [] | Some s \<Rightarrow> s)"
  have I: "\<And>h' a'. envelopes wh h' = Some a' \<Longrightarrow>
         hash (hp a') = h' \<and> (\<exists>s. ?B (Expiry (hp a')) = Some s \<and> h' \<in> set s)"
    using inv unfolding pool_inv_def by blast
  have J: "\<And>t s h'. ?B t = Some s \<Longrightarrow> h' \<in> set s \<Longrightarrow>
         \<exists>a'. envelopes wh h' = Some a' \<and> Expiry (hp a') = t"
    using inv unfolding pool_inv_def by blast
  have Dk: "distinct (map fst (expirations wh))" using inv unfolding pool_inv_def by blast
  have Db: "\<And>t s. ?B t = Some s \<Longrightarrow> distinct s" using inv unfolding pool_inv_def by blast
  have notin: "\<And>t s. ?B t = Some s \<Longrightarrow> h \<notin> set s"
    using J fresh by fastforce
  have h_s0: "h \<notin> set s0" and d_s0: "distinct s0"
    using notin[of ?t] Db[of ?t] by (auto simp: s0_def split: option.splits)
  have s0_old: "\<And>h'. h' \<in> set s0 \<Longrightarrow> \<exists>a'. envelopes wh h' = Some a' \<and> Expiry (hp a') = ?t"
  proof -
    fix h' assume h': "h' \<in> set s0"
    then obtain s where s: "?B ?t = Some s" "s = s0"
      by (cases "?B ?t") (auto simp: s0_def)
    with J[of ?t s h'] h' show "\<exists>a'. envelopes wh h' = Some a' \<and> Expiry (hp a') = ?t" by simp
  qed
  have old_s0: "\<And>s. ?B ?t = Some s \<Longrightarrow> s = s0"
    by (simp add: s0_def)
  have B': "map_of (addExpiration ?t h (expirations wh)) = ?B(?t \<mapsto> s0 @ [h])"
    using notin[of ?t] by (auto simp: map_of_addExpiration s0_def split: option.splits)
  have E: "envelopes ?w = (envelopes wh)(h \<mapsto> a)" and X: "map_of (expirations ?w) = ?B(?t \<mapsto> s0 @ [h])"
    by (simp_all add: B')
  show ?thesis
    unfolding pool_inv_def E X
  proof (intro conjI allI impI)
    show "distinct (map fst (expirations ?w))"
      using Dk by (simp add: distinct_addExpiration)
  next
    fix h' a'
    assume a: "((envelopes wh)(h \<mapsto> a)) h' = Some a'"
    show "hash (hp a') = h'"
    proof (cases "h' = h")
      case True
      with a hsh show ?thesis by simp
    next
      case False
      with a I[of h' a'] show ?thesis by simp
    qed
    show "\<exists>s. (?B(?t \<mapsto> s0 @ [h])) (Expiry (hp a')) = Some s \<and> h' \<in> set s"
    proof (cases "h' = h")
      case True
      with a have "a' = a" by simp
      with True show ?thesis by simp
    next
      case False
      with a have "envelopes wh h' = Some a'" by simp
      from I[OF this] obtain s where s: "?B (Expiry (hp a')) = Some s" "h' \<in> set s" by blast
      show ?thesis
      proof (cases "Expiry (hp a') = ?t")
        case True
        with s old_s0[of s] show ?thesis by simp
      next
        case False
        with s show ?thesis by simp
      qed
    qed
  next
    fix t s h'
    assume "(?B(?t \<mapsto> s0 @ [h])) t = Some s \<and> h' \<in> set s"
    then have a: "(?B(?t \<mapsto> s0 @ [h])) t = Some s" and h': "h' \<in> set s" by simp_all
    show "\<exists>a'. ((envelopes wh)(h \<mapsto> a)) h' = Some a' \<and> Expiry (hp a') = t"
    proof (cases "t = ?t")
      case True
      with a have "s = s0 @ [h]" by simp
      with h' have "h' = h \<or> h' \<in> set s0" by auto
      then show ?thesis
      proof
        assume "h' = h"
        with True show ?thesis by simp
      next
        assume in0: "h' \<in> set s0"
        with h_s0 have "h' \<noteq> h" by auto
        with s0_old[OF in0] True show ?thesis by simp
      qed
    next
      case False
      with a have old: "?B t = Some s" by simp
      from notin[OF old] h' have "h' \<noteq> h" by auto
      with J[OF old h'] show ?thesis by simp
    qed
  next
    fix t s
    assume a: "(?B(?t \<mapsto> s0 @ [h])) t = Some s"
    show "distinct s"
    proof (cases "t = ?t")
      case True
      with a have "s = s0 @ [h]" by simp
      with h_s0 d_s0 show ?thesis by simp
    next
      case False
      with a have "?B t = Some s" by simp
      then show ?thesis by (rule Db)
    qed
  qed
qed

lemma pool_inv_add:
  fixes P :: "('p::ord) params"
  assumes "pool_inv hp wh"
  shows "pool_inv (fst (snd (add P now a hp wh))) (snd (snd (add P now a hp wh)))"
proof -
  let ?h = "storeAfterAdd P now a hp"
  have inv': "pool_inv ?h wh"
    using assms by (rule pool_inv_store) simp
  show ?thesis
  proof (cases rule: add_cases[of P now a hp wh])
    case unchanged
    with inv' show ?thesis by (simp add: add_store)
  next
    case inserted
    have "pool_inv ?h (wh\<lparr>envelopes := (envelopes wh)(hash (hp a) \<mapsto> a),
               expirations := addExpiration (Expiry (?h a)) (hash (hp a)) (expirations wh)\<rparr>)"
      using inv' inserted(1) by (rule pool_inv_insert) simp
    with inserted(3) show ?thesis by (simp add: add_store pool_inv_postEvent)
  qed
qed

lemma pool_inv_new:
  assumes "pool_inv hp w" and "a \<notin> ran (envelopes w)"
  shows "pool_inv (hp(a := e)) w"
  using assms(1)
proof (rule pool_inv_store)
  fix x assume "x \<in> ran (envelopes w)"
  with assms(2) have "x \<noteq> a" by auto
  then show "Expiry ((hp(a := e)) x) = Expiry (hp x) \<and> hash ((hp(a := e)) x) = hash (hp x)"
    by simp
qed

lemma pool_inv_expire:
  assumes inv: "pool_inv hp w"
  shows "pool_inv hp (expire now w)"
proof -
  let ?B = "map_of (expirations w)"
  have Dk: "distinct (map fst (expirations w))" using inv unfolding pool_inv_def by blast
  have I: "\<And>h' a'. envelopes w h' = Some a' \<Longrightarrow>
         hash (hp a') = h' \<and> (\<exists>s. ?B (Expiry (hp a')) = Some s \<and> h' \<in> set s)"
    using inv unfolding pool_inv_def by blast
  have J: "\<And>t s h'. ?B t = Some s \<Longrightarrow> h' \<in> set s \<Longrightarrow>
         \<exists>a'. envelopes w h' = Some a' \<and> Expiry (hp a') = t"
    using inv unfolding pool_inv_def by blast
  have Db: "\<And>t s. ?B t = Some s \<Longrightarrow> distinct s" using inv unfolding pool_inv_def by blast
  have stale: "\<And>h. h \<in> staleHashes now (expirations w) \<longleftrightarrow> (\<exists>t s. ?B t = Some s \<and> t \<le> now \<and> h \<in> set s)"
    using Dk by (rule staleHashes_map_of)
  have dom: "\<And>t s. ?B t = Some s \<Longrightarrow> t \<in> fst ` set (expirations w)"
    by (auto dest!: map_of_SomeD intro: rev_image_eqI)
  show ?thesis
    unfolding pool_inv_def
  proof (intro conjI allI impI)
    show "distinct (map fst (expirations (expire now w)))" using Dk by (simp add: expire_keys)
  next
    fix h a
    assume a: "envelopes (expire now w) h = Some a"
    then have ns: "h \<notin> staleHashes now (expirations w)" and env: "envelopes w h = Some a"
      by (auto simp: expire_envelopes split: if_splits)
    from I[OF env] show "hash (hp a) = h" by simp
    from I[OF env] obtain s where s: "?B (Expiry (hp a)) = Some s" "h \<in> set s" by blast
    with ns have "\<not> Expiry (hp a) \<le> now" by (auto simp: stale)
    with s show "\<exists>s. map_of (expirations (expire now w)) (Expiry (hp a)) = Some s \<and> h \<in> set s"
      by (simp add: expire_map_of)
  next
    fix t s h
    assume a: "map_of (expirations (expire now w)) t = Some s \<and> h \<in> set s"
    then have old: "?B t = Some s" and h: "h \<in> set s" and fut: "\<not> t \<le> now"
      using dom[of t] by (auto simp: expire_map_of split: if_splits)
    from J[OF old h] obtain x where e: "envelopes w h = Some x" "Expiry (hp x) = t" by blast
    have "h \<notin> staleHashes now (expirations w)"
    proof
      assume "h \<in> staleHashes now (expirations w)"
      then obtain t' s' where "?B t' = Some s'" "t' \<le> now" "h \<in> set s'" by (auto simp: stale)
      with J[of t' s' h] e fut show False by auto
    qed
    with e show "\<exists>a. envelopes (expire now w) h = Some a \<and> Expiry (hp a) = t"
      by (simp add: expire_envelopes)
  next
    fix t s
    assume "map_of (expirations (expire now w)) t = Some s"
    then show "distinct s" using Db[of t s] by (auto simp: expire_map_of split: if_splits)
  qed
qed

lemma pool_inv_addDecryptedMessage: "pool_inv hp (addDecryptedMessage msg w) = pool_inv hp w"
  by (simp add: pool_inv_def addDecryptedMessage_def)

lemma reachable_pool_inv:
  fixes P :: "('p::ord) params"
  shows "reachable P hp w \<Longrightarrow> pool_inv hp w"
proof (induction rule: reachable.induct)
  case (reachable_init hp)
  show ?case by (rule pool_inv_NewWhisper)
next
  case (reachable_new hp w a e)
  from reachable_new.IH reachable_new.hyps(2) show ?case by (rule pool_inv_new)
next
  case (reachable_add hp w now envelope)
  then show ?case by (simp add: pool_inv_add)
next
  case (reachable_expire hp w now)
  then show ?case by (simp add: pool_inv_expire)
next
  case (reachable_addDecryptedMessage hp w msg)
  then show ?case by (simp add: pool_inv_addDecryptedMessage)
qed


lemma expire_destroys_message:
  fixes P :: "('p::ord) params"
  assumes "reachable P hp w" and "envelopes w h = Some a" and "Expiry (hp a) \<le> now"
  shows "envelopes (expire now w) h = None \<and> messages (expire now w) h = None"
proof -
  from assms(1) have "pool_inv hp w" by (rule reachable_pool_inv)
  with assms(2) obtain s where "map_of (expirations w) (Expiry (hp a)) = Some s" "h \<in> set s"
    unfolding pool_inv_def by blast
  then have "(Expiry (hp a), s) \<in> set (expirations w)" and "h \<in> set s"
    by (auto dest: map_of_SomeD)
  with assms(3) have "h \<in> staleHashes now (expirations w)"
    by (auto simp: staleHashes_def)
  then show ?thesis by (simp add: expire_envelopes expire_messages)
qed

lemma example_fields [simp]:
  "Expiry exampleEnvelope = 1700000060" "TTL exampleEnvelope = 50"
  "SynchAllowance exampleParams = 10"
  by (simp_all add: exampleEnvelope_def exampleParams_def)

lemma exampleParams_fields [simp]:
  "MaxMessageLength exampleParams = 65535" "AESNonceMaxLength exampleParams = 12"
  "saltLength exampleParams = 12" "MinimumPoW exampleParams = 10"
  "EnvelopeVersion exampleParams = 0" "messagesCode exampleParams = 1"
  "powScore exampleParams = (\<lambda>e diff. 65536 div (int (unat (TTL e + diff)) + 1))"
  "Ver exampleParams = (\<lambda>e. bytesToIntLittleEndian (Version e))"
  by (simp_all add: exampleParams_def)

lemma exampleEnvelope_fields [simp]:
  "Version exampleEnvelope = []" "Salt exampleEnvelope = [1, 2, 3]"
  "AESNonce exampleEnvelope = [4, 5, 6]" "Data exampleEnvelope = [7, 8, 9]"
  "pow exampleEnvelope = 100" "hash exampleEnvelope = 11259375"
  by (simp_all add: exampleEnvelope_def)

lemma NewWhisper_fields [simp]:
  "envelopes NewWhisper = Map.empty" "messages NewWhisper = Map.empty"
  "expirations NewWhisper = []" "test NewWhisper = False" "notified NewWhisper = []"
  "privateKeys NewWhisper = Map.empty" "symKeys NewWhisper = Map.empty"
  by (simp_all add: NewWhisper_def)

lemma exampleStore_at [simp]:
  "exampleStore 3 = exampleEnvelope"
  "exampleStore 2 = exampleEnvelope\<lparr>Expiry := 1700006555, TTL := 6545, hash := 2\<rparr>"
  by (simp_all add: exampleStore_def)

lemma example_scored:
  "scoredEnvelope exampleParams 1700000000 exampleEnvelope = exampleEnvelope\<lparr>pow := 1057\<rparr>"
  by (simp add: scoredEnvelope_def calculatePoW_def)

lemma example_add:
  "add exampleParams 1700000000 3 exampleStore NewWhisper =
     (Inr (), exampleStore(3 := exampleEnvelope\<lparr>pow := 1057\<rparr>),
      NewWhisper\<lparr>envelopes := [11259375 \<mapsto> 3],
                 expirations := [(1700000060, [11259375])],
                 notified := [(3, 1)]\<rparr>)"
proof -
  have g: "reachesPoWGate exampleParams 1700000000 (exampleStore 3)"
    by (simp add: reachesPoWGate_def)
  have v: "bytesToIntLittleEndian [] = 0" by (simp add: bytesToIntLittleEndian_def)
  show ?thesis
    by (simp add: add_reachesPoWGate[where hp = exampleStore and a = 3, OF g] example_scored PoW_def Hash_def add_pool_def
        postEvent_def addExpiration_def v)
qed

lemma exampleNode_eq:
  "exampleNode =
     NewWhisper\<lparr>envelopes := [11259375 \<mapsto> 3],
                expirations := [(1700000060, [11259375])],
                notified := [(3, 1)]\<rparr>"
  by (simp add: exampleNode_def example_add)

lemma exampleStore1_eq: "exampleStore1 = exampleStore(3 := exampleEnvelope\<lparr>pow := 1057\<rparr>)"
  by (simp add: exampleStore1_def example_add)

lemma exampleStore1_at [simp]:
  "exampleStore1 3 = exampleEnvelope\<lparr>pow := 1057\<rparr>"
  by (simp add: exampleStore1_eq)

lemma exampleNode_reachable: "reachable exampleParams exampleStore1 exampleNode"
  unfolding exampleNode_def exampleStore1_def by (rule reachable_add) (rule reachable_init)

lemma exampleNode_fields [simp]:
  "envelopes exampleNode = [11259375 \<mapsto> 3]"
  "messages exampleNode = Map.empty"
  "expirations exampleNode = [(1700000060, [11259375])]"
  "notified exampleNode = [(3, 1)]"
  "test exampleNode = False"
  by (simp_all add: exampleNode_eq)

lemma Hash_scoredEnvelope [simp]: "Hash (scoredEnvelope P now e) = Hash e"
  by (simp add: Hash_def)

lemma add_admitted:
  fixes P :: "('p::ord) params"
  assumes "admitted P now (hp a) wh"
  shows "add P now a hp wh = add_pool P a (hp(a := scoredEnvelope P now (hp a))) wh"
  using assms by (auto simp: admitted_def add_reachesPoWGate)

lemma AddSymKey_present:
  "HasSymKey w name \<Longrightarrow> AddSymKey P name key w = (Inl (KeyAlreadyExists name), w)"
  by (simp add: AddSymKey_def)

lemma GenerateSymKey_present:
  "HasSymKey w name \<Longrightarrow>
   GenerateSymKey P crand mrand name w =
     (case GenerateSymKey_derive P crand mrand of
        Inl err \<Rightarrow> (Inl err, w)
      | Inr derived \<Rightarrow> (Inl (KeyAlreadyExists name), w))"
  by (simp add: GenerateSymKey_def HasSymKey_def split: sum.splits)

lemma example_AddSymKey:
  "AddSymKey exampleParams ''alice'' [1, 2, 3] NewWhisper =
     (Inr (), NewWhisper\<lparr>symKeys := [''alice'' \<mapsto> [1, 2]]\<rparr>)"
  by (simp add: AddSymKey_def HasSymKey_def deriveKeyMaterial_def exampleParams_def)

lemma example_derive:
  "GenerateSymKey_derive exampleParams (Inr (\<lambda>i. 1)) (\<lambda>i. of_nat i + 2) = Inr [6, 6]"
proof -
  have u: "[0..<4] = [0, 1, 2, 3]" by (simp add: upt_rec)
  show ?thesis
    by (simp add: GenerateSymKey_derive_def exampleParams_def validateSymmetricKey_def u)
qed

lemma exampleKey_valid:
  "validatePrivateKey (Some exampleKey)" "\<not> validatePrivateKey (Some (exampleKey\<lparr>D := Some 0\<rparr>))"
  by (simp_all add: validatePrivateKey_def ValidatePublicKey_def exampleKey_def)

lemma add_at_gate_cached:
  fixes P :: "('p::ord) params"
  assumes "reachesPoWGate P now (hp a)" and "envelopes wh (Hash (hp a)) \<noteq> None"
  shows "add P now a hp wh = (Inr (), hp(a := scoredEnvelope P now (hp a)), wh)"
proof -
  let ?h = "hp(a := scoredEnvelope P now (hp a))"
  have "envelopes wh (Hash (?h a)) \<noteq> None" using assms(2) by simp
  then have "add_pool P a ?h wh = (Inr (), ?h, wh)" by (rule add_pool_cached)
  with assms(1) show ?thesis by (simp add: add_reachesPoWGate)
qed

section \<open>Idempotent admission\<close>

text \<open>
  Claim C1 (as amended). Let \<^verbatim>\<open>add\<close> be called with an envelope that is admitted then,
  and again, at the same or another time, with the same envelope or with another
  envelope of the same hash (a copy of it) that passes the checks of lines 281 to 314
  then. Both calls return success. If the hash was not in the pool, the first call puts
  one entry into the envelope map, the pointer at the hash of the envelope, and spawns
  one notification of the watchers if the version of the envelope is at most
  \<open>EnvelopeVersion\<close>, and none if it is higher; if the hash was in the pool, the first call
  leaves the node as it is. The second call leaves the node as it is: it changes no map
  of the pool and spawns no notification. What a call writes is the score of the
  envelope it is given, at line 286, when that envelope is dated in the future: the
  second call with the same envelope rewrites the score of the pooled envelope then,
  and writes nothing otherwise.
\<close>

theorem add_idempotent:
  fixes P :: "('p::ord) params"
  assumes first: "admitted P now (hp a) wh"
    and same: "Hash (fst (snd (add P now a hp wh)) a') = Hash (hp a)"
    and second: "reachesPoWGate P now' (fst (snd (add P now a hp wh)) a')"
  shows "fst (add P now a hp wh) = Inr ()
       \<and> fst (snd (add P now a hp wh)) = hp(a := scoredEnvelope P now (hp a))
       \<and> (envelopes wh (Hash (hp a)) = None
            \<longrightarrow> envelopes (snd (snd (add P now a hp wh))) = (envelopes wh)(Hash (hp a) \<mapsto> a)
              \<and> notified (snd (snd (add P now a hp wh)))
                  = notified wh @
                    (if Ver P (scoredEnvelope P now (hp a)) \<le> EnvelopeVersion P
                     then [(a, messagesCode P)] else []))
       \<and> (envelopes wh (Hash (hp a)) \<noteq> None \<longrightarrow> snd (snd (add P now a hp wh)) = wh)
       \<and> fst (add P now' a' (fst (snd (add P now a hp wh))) (snd (snd (add P now a hp wh))))
           = Inr ()
       \<and> snd (snd (add P now' a' (fst (snd (add P now a hp wh))) (snd (snd (add P now a hp wh)))))
           = snd (snd (add P now a hp wh))
       \<and> fst (snd (add P now' a' (fst (snd (add P now a hp wh))) (snd (snd (add P now a hp wh)))))
           = (fst (snd (add P now a hp wh)))
               (a' := scoredEnvelope P now' (fst (snd (add P now a hp wh)) a'))
       \<and> (\<not> now' < Expiry (fst (snd (add P now a hp wh)) a') - TTL (fst (snd (add P now a hp wh)) a')
            \<longrightarrow> fst (snd (add P now' a' (fst (snd (add P now a hp wh)))
                             (snd (snd (add P now a hp wh)))))
                  = fst (snd (add P now a hp wh)))"
proof -
  let ?h1 = "hp(a := scoredEnvelope P now (hp a))"
  let ?hp1 = "fst (snd (add P now a hp wh))"
  let ?w1 = "snd (snd (add P now a hp wh))"
  have eq: "add P now a hp wh = add_pool P a ?h1 wh" using first by (rule add_admitted)
  have r1: "fst (add P now a hp wh) = Inr ()" by (simp add: eq add_pool_result)
  have s1: "?hp1 = ?h1" by (simp add: eq add_pool_def Let_def)
  have fresh: "envelopes ?w1 = (envelopes wh)(Hash (hp a) \<mapsto> a)
       \<and> notified ?w1 = notified wh @
             (if Ver P (scoredEnvelope P now (hp a)) \<le> EnvelopeVersion P
              then [(a, messagesCode P)] else [])"
    if "envelopes wh (Hash (hp a)) = None"
    using that by (simp add: eq add_pool_fresh postEvent_def)
  have old: "?w1 = wh" if "envelopes wh (Hash (hp a)) \<noteq> None"
    using that by (simp add: eq add_pool_cached)
  have "envelopes ?w1 (Hash (?h1 a)) \<noteq> None"
    unfolding eq by (rule add_pool_pooled)
  then have cached: "envelopes ?w1 (Hash (?hp1 a')) \<noteq> None"
    by (simp add: same)
  have eq2: "add P now' a' ?hp1 ?w1 = (Inr (), ?hp1(a' := scoredEnvelope P now' (?hp1 a')), ?w1)"
    using second cached by (rule add_at_gate_cached)
  have r2: "fst (add P now' a' ?hp1 ?w1) = Inr ()"
    and r3: "snd (snd (add P now' a' ?hp1 ?w1)) = ?w1"
    and r4: "fst (snd (add P now' a' ?hp1 ?w1)) = ?hp1(a' := scoredEnvelope P now' (?hp1 a'))"
    unfolding eq2 by simp_all
  have r5: "fst (snd (add P now' a' ?hp1 ?w1)) = ?hp1"
    if "\<not> now' < Expiry (?hp1 a') - TTL (?hp1 a')"
    unfolding r4 using that by (simp add: scoredEnvelope_def)
  from r1 s1 fresh old r2 r3 r4 r5 show ?thesis by blast
qed


theorem add_idempotent_witness:
  "envelopes exampleNode = [11259375 \<mapsto> 3]
   \<and> notified exampleNode = [(3, 1)]
   \<and> PoW (exampleStore1 3) = 1057
   \<and> fst (add exampleParams 1700000005 3 exampleStore1 exampleNode) = Inr ()
   \<and> snd (snd (add exampleParams 1700000005 3 exampleStore1 exampleNode)) = exampleNode
   \<and> PoW (fst (snd (add exampleParams 1700000005 3 exampleStore1 exampleNode)) 3) = 1149
   \<and> fst (add exampleParams 1700000005 4 exampleStore1 exampleNode) = Inr ()
   \<and> snd (snd (add exampleParams 1700000005 4 exampleStore1 exampleNode)) = exampleNode
   \<and> PoW (fst (snd (add exampleParams 1700000005 4 exampleStore1 exampleNode)) 3) = 1057"
proof -
  let ?hp1 = "fst (snd (add exampleParams 1700000000 3 exampleStore NewWhisper))"
  let ?w1 = "snd (snd (add exampleParams 1700000000 3 exampleStore NewWhisper))"
  have hp1: "?hp1 = exampleStore1" by (simp add: exampleStore1_def)
  have w1: "?w1 = exampleNode" by (simp add: exampleNode_def)
  have a1: "admitted exampleParams 1700000000 (exampleStore 3) NewWhisper"
    by (simp add: admitted_def reachesPoWGate_def example_scored PoW_def)
  have c: "exampleStore1 4 = exampleEnvelope" by (simp add: exampleStore1_eq exampleStore_def)
  have same3: "Hash (?hp1 3) = Hash (exampleStore 3)"
    and same4: "Hash (?hp1 4) = Hash (exampleStore 3)"
    unfolding hp1 by (simp_all add: Hash_def c)
  have g3: "reachesPoWGate exampleParams 1700000005 (?hp1 3)"
    and g4: "reachesPoWGate exampleParams 1700000005 (?hp1 4)"
    unfolding hp1 by (simp_all add: reachesPoWGate_def c)
  have s3: "scoredEnvelope exampleParams 1700000005 (exampleEnvelope\<lparr>pow := 1057\<rparr>)
             = exampleEnvelope\<lparr>pow := 1149\<rparr>"
    by (simp add: scoredEnvelope_def calculatePoW_def)
  note T3 = add_idempotent[where P = exampleParams and hp = exampleStore and a = 3 and a' = 3
      and now = 1700000000 and now' = 1700000005 and wh = NewWhisper, OF a1 same3 g3,
      unfolded hp1 w1]
  note T4 = add_idempotent[where P = exampleParams and hp = exampleStore and a = 3 and a' = 4
      and now = 1700000000 and now' = 1700000005 and wh = NewWhisper, OF a1 same4 g4,
      unfolded hp1 w1]
  have 3: "fst (add exampleParams 1700000005 3 exampleStore1 exampleNode) = Inr ()"
    and 4: "snd (snd (add exampleParams 1700000005 3 exampleStore1 exampleNode)) = exampleNode"
    and 5: "fst (snd (add exampleParams 1700000005 3 exampleStore1 exampleNode))
              = exampleStore1(3 := scoredEnvelope exampleParams 1700000005 (exampleStore1 3))"
    using T3 by blast+
  have 6: "fst (add exampleParams 1700000005 4 exampleStore1 exampleNode) = Inr ()"
    and 7: "snd (snd (add exampleParams 1700000005 4 exampleStore1 exampleNode)) = exampleNode"
    and 8: "fst (snd (add exampleParams 1700000005 4 exampleStore1 exampleNode))
              = exampleStore1(4 := scoredEnvelope exampleParams 1700000005 (exampleStore1 4))"
    using T4 by blast+
  from 3 4 6 7 show ?thesis
    by (simp add: 5 8 s3 PoW_def)
qed

text \<open>
  Claim C1, as it is stated, fails on an envelope of a version above \<open>EnvelopeVersion\<close>:
  the sample envelope with the version bytes \<open>[1]\<close> passes every check of \<^verbatim>\<open>add\<close>, both
  calls return success and the envelope is in the pool, and \<^verbatim>\<open>postEvent\<close> notifies no
  watcher, neither in the first call nor in the second.
\<close>

theorem add_idempotent_counterexample:
  "fst (add exampleParams 1700000000 3 (\<lambda>x. exampleEnvelope\<lparr>Version := [1]\<rparr>) NewWhisper) = Inr ()
   \<and> envelopes (snd (snd (add exampleParams 1700000000 3
                             (\<lambda>x. exampleEnvelope\<lparr>Version := [1]\<rparr>) NewWhisper)))
       (Hash (exampleEnvelope\<lparr>Version := [1]\<rparr>)) = Some 3
   \<and> fst (add exampleParams 1700000000 3
        (fst (snd (add exampleParams 1700000000 3 (\<lambda>x. exampleEnvelope\<lparr>Version := [1]\<rparr>) NewWhisper)))
        (snd (snd (add exampleParams 1700000000 3 (\<lambda>x. exampleEnvelope\<lparr>Version := [1]\<rparr>) NewWhisper))))
       = Inr ()
   \<and> notified (snd (snd (add exampleParams 1700000000 3
        (fst (snd (add exampleParams 1700000000 3 (\<lambda>x. exampleEnvelope\<lparr>Version := [1]\<rparr>) NewWhisper)))
        (snd (snd (add exampleParams 1700000000 3 (\<lambda>x. exampleEnvelope\<lparr>Version := [1]\<rparr>) NewWhisper))))))
       = []"
proof -
  let ?e = "exampleEnvelope\<lparr>Version := [1]\<rparr>"
  let ?x = "exampleEnvelope\<lparr>Version := [1], pow := 1057\<rparr>"
  let ?hp = "\<lambda>x::addr. ?e"
  let ?hp1 = "?hp(3 := ?x)"
  let ?w1 = "NewWhisper\<lparr>envelopes := [11259375 \<mapsto> 3], expirations := [(1700000060, [11259375])]\<rparr>"
  have g: "reachesPoWGate exampleParams 1700000000 (?hp 3)"
    by (simp add: reachesPoWGate_def)
  have sc: "scoredEnvelope exampleParams 1700000000 ?e = ?x"
    by (simp add: scoredEnvelope_def calculatePoW_def)
  have v: "bytesToIntLittleEndian [1] = 1" by (simp add: bytesToIntLittleEndian_def)
  have eq1: "add exampleParams 1700000000 3 ?hp NewWhisper = (Inr (), ?hp1, ?w1)"
    using g by (simp add: add_reachesPoWGate sc PoW_def Hash_def add_pool_def
        postEvent_def addExpiration_def v)
  have g2: "reachesPoWGate exampleParams 1700000000 (?hp1 3)"
    by (simp add: reachesPoWGate_def)
  have sc2: "scoredEnvelope exampleParams 1700000000 ?x = ?x"
    by (simp add: scoredEnvelope_def calculatePoW_def)
  have eq2: "add exampleParams 1700000000 3 ?hp1 ?w1 = (Inr (), ?hp1, ?w1)"
    using g2 by (simp add: add_reachesPoWGate sc2 PoW_def Hash_def add_pool_def)
  show ?thesis by (simp add: eq1 eq2 Hash_def)
qed

section \<open>The future-dating boundary\<close>

text \<open>
  Claim C2. An envelope with \<open>sent = Expiry - TTL\<close> later than \<open>now\<close> is rejected by
  \<^verbatim>\<open>add\<close> with "message created in the future" if and only if \<open>sent - SynchAllowance\<close> is
  later than \<open>now\<close> (in the 32-bit arithmetic of the code); then nothing changes. Otherwise
  the score of the envelope is recomputed with the parameter \<open>sent - now + 1\<close> and written
  into the envelope, and \<^verbatim>\<open>add\<close> goes on with the checks from line 290. In particular
  \<open>sent = now + SynchAllowance + 1\<close> is rejected, and \<open>sent = now + SynchAllowance - 1\<close> goes on
  (at any time \<open>now\<close> but 0, where \<open>now - 1\<close> wraps around).
\<close>

theorem add_future_boundary:
  fixes P :: "('p::ord) params"
  assumes "now < Expiry (hp a) - TTL (hp a)"
  shows "(fst (add P now a hp wh) = Inl MessageCreatedInTheFuture
            \<longleftrightarrow> now < Expiry (hp a) - TTL (hp a) - SynchAllowance P)
       \<and> (now < Expiry (hp a) - TTL (hp a) - SynchAllowance P
            \<longrightarrow> add P now a hp wh = (Inl MessageCreatedInTheFuture, hp, wh))
       \<and> (\<not> now < Expiry (hp a) - TTL (hp a) - SynchAllowance P
            \<longrightarrow> add P now a hp wh =
                  add_checks P now a
                    (hp(a := calculatePoW P (hp a) (Expiry (hp a) - TTL (hp a) - now + 1))) wh
              \<and> fst (snd (add P now a hp wh))
                  = hp(a := calculatePoW P (hp a) (Expiry (hp a) - TTL (hp a) - now + 1))
              \<and> PoW (fst (snd (add P now a hp wh)) a)
                  = powScore P (hp a) (Expiry (hp a) - TTL (hp a) - now + 1))
       \<and> (Expiry (hp a) - TTL (hp a) = now + SynchAllowance P + 1
            \<longrightarrow> fst (add P now a hp wh) = Inl MessageCreatedInTheFuture)
       \<and> (Expiry (hp a) - TTL (hp a) = now + SynchAllowance P - 1 \<and> now \<noteq> 0
            \<longrightarrow> add P now a hp wh =
                  add_checks P now a
                    (hp(a := calculatePoW P (hp a) (Expiry (hp a) - TTL (hp a) - now + 1))) wh)"
proof -
  let ?sent = "Expiry (hp a) - TTL (hp a)"
  let ?h = "hp(a := calculatePoW P (hp a) (?sent - now + 1))"
  have reject: "add P now a hp wh = (Inl MessageCreatedInTheFuture, hp, wh)"
    if "now < ?sent - SynchAllowance P"
    using assms that by (simp add: add_def Let_def)
  have continue: "add P now a hp wh = add_checks P now a ?h wh"
    if "\<not> now < ?sent - SynchAllowance P"
    using assms that by (simp add: add_def Let_def)
  have iff: "fst (add P now a hp wh) = Inl MessageCreatedInTheFuture
            \<longleftrightarrow> now < ?sent - SynchAllowance P"
    using reject continue add_checks_not_future[of P now a ?h wh]
    by (cases "now < ?sent - SynchAllowance P") auto
  have store: "fst (snd (add P now a hp wh)) = ?h"
    if "\<not> now < ?sent - SynchAllowance P"
    using continue[OF that] by (simp add: add_checks_store)
  have score: "PoW (fst (snd (add P now a hp wh)) a) = powScore P (hp a) (?sent - now + 1)"
    if "\<not> now < ?sent - SynchAllowance P"
    using store[OF that] by (simp add: PoW_def)
  have ex1: "now < ?sent - SynchAllowance P" if "?sent = now + SynchAllowance P + 1"
  proof -
    have "now < now + 1" using assms by unat_arith
    then show ?thesis by (simp add: that)
  qed
  have ex2: "\<not> now < ?sent - SynchAllowance P" if "?sent = now + SynchAllowance P - 1" "now \<noteq> 0"
  proof -
    have "\<not> now < now - 1" using that(2) by unat_arith
    then show ?thesis by (simp add: that(1))
  qed
  show ?thesis
    using iff reject continue store score ex1 ex2 by blast
qed

theorem add_future_boundary_witness:
  "(1700000000 :: u32) < Expiry (exampleStore 3) - TTL (exampleStore 3)
   \<and> fst (add exampleParams 1700000000 3 exampleStore NewWhisper) \<noteq> Inl MessageCreatedInTheFuture
   \<and> PoW (fst (snd (add exampleParams 1700000000 3 exampleStore NewWhisper)) 3) = 1057
   \<and> add exampleParams 1700000000 3 (\<lambda>x. exampleEnvelope\<lparr>Expiry := 1700000061\<rparr>) NewWhisper
       = (Inl MessageCreatedInTheFuture, \<lambda>x. exampleEnvelope\<lparr>Expiry := 1700000061\<rparr>, NewWhisper)
   \<and> add exampleParams 1700000000 3 (\<lambda>x. exampleEnvelope\<lparr>Expiry := 1700000059\<rparr>) NewWhisper
       = add_checks exampleParams 1700000000 3
           ((\<lambda>x. exampleEnvelope\<lparr>Expiry := 1700000059\<rparr>)
              (3 := calculatePoW exampleParams (exampleEnvelope\<lparr>Expiry := 1700000059\<rparr>) 10))
           NewWhisper"
proof -
  let ?now = "1700000000 :: u32"
  have h: "?now < Expiry (exampleStore 3) - TTL (exampleStore 3)" by simp
  have n: "\<not> ?now < Expiry (exampleStore 3) - TTL (exampleStore 3) - SynchAllowance exampleParams"
    by simp
  have s: "powScore exampleParams (exampleStore 3)
             (Expiry (exampleStore 3) - TTL (exampleStore 3) - ?now + 1) = 1057"
    by simp
  from add_future_boundary[where hp = exampleStore and a = 3 and now = ?now and P = exampleParams and wh = NewWhisper] h n
  have 1: "fst (add exampleParams ?now 3 exampleStore NewWhisper) \<noteq> Inl MessageCreatedInTheFuture"
    and 2: "PoW (fst (snd (add exampleParams ?now 3 exampleStore NewWhisper)) 3)
          = powScore exampleParams (exampleStore 3)
              (Expiry (exampleStore 3) - TTL (exampleStore 3) - ?now + 1)"
    by blast+
  let ?late = "\<lambda>x::addr. exampleEnvelope\<lparr>Expiry := 1700000061\<rparr>"
  have hl: "?now < Expiry (?late 3) - TTL (?late 3)" by simp
  have el: "Expiry (?late 3) - TTL (?late 3) = ?now + SynchAllowance exampleParams + 1" by simp
  from add_future_boundary[where hp = ?late and a = 3 and now = ?now and P = exampleParams and wh = NewWhisper] hl el
  have "?now < Expiry (?late 3) - TTL (?late 3) - SynchAllowance exampleParams" by blast
  with add_future_boundary[where hp = ?late and a = 3 and now = ?now and P = exampleParams and wh = NewWhisper] hl
  have 3: "add exampleParams ?now 3 ?late NewWhisper = (Inl MessageCreatedInTheFuture, ?late, NewWhisper)"
    by blast
  let ?near = "\<lambda>x::addr. exampleEnvelope\<lparr>Expiry := 1700000059\<rparr>"
  have hn: "?now < Expiry (?near 3) - TTL (?near 3)" by simp
  have en: "Expiry (?near 3) - TTL (?near 3) = ?now + SynchAllowance exampleParams - 1 \<and> ?now \<noteq> 0"
    by simp
  from add_future_boundary[where hp = ?near and a = 3 and now = ?now and P = exampleParams and wh = NewWhisper] hn en
  have "add exampleParams ?now 3 ?near NewWhisper
       = add_checks exampleParams ?now 3
           (?near(3 := calculatePoW exampleParams (?near 3)
                         (Expiry (?near 3) - TTL (?near 3) - ?now + 1))) NewWhisper"
    by blast
  then have 4: "add exampleParams ?now 3 ?near NewWhisper
       = add_checks exampleParams ?now 3
           (?near(3 := calculatePoW exampleParams (exampleEnvelope\<lparr>Expiry := 1700000059\<rparr>) 10))
           NewWhisper"
    by simp
  from h 1 2 s 3 4 show ?thesis by simp
qed

section \<open>The staleness boundary\<close>

text \<open>
  Claim C3 (as amended). For an envelope with \<open>Expiry < now\<close> that the future-dating check
  of line 282 does not reject, \<^verbatim>\<open>add\<close> returns "very old message" if and only if
  \<open>Expiry + SynchAllowance * 2 < now\<close> (in the 32-bit arithmetic of the code), and returns
  success otherwise; in both cases the node, and so the envelope pool and every later
  listing of it, is unchanged, and the store is changed by line 286 at most. In
  particular \<open>Expiry = now - 2 * SynchAllowance - 1\<close> is rejected, and \<open>Expiry = now - 1\<close> is
  dropped with success when the allowance is not 0 and \<open>now + 2 * SynchAllowance\<close> does not
  wrap around.
\<close>

theorem add_staleness_boundary:
  fixes P :: "('p::ord) params"
  assumes "Expiry (hp a) < now"
    and "\<not> (now < Expiry (hp a) - TTL (hp a)
            \<and> now < Expiry (hp a) - TTL (hp a) - SynchAllowance P)"
  shows "(fst (add P now a hp wh) = Inl VeryOldMessage
            \<longleftrightarrow> Expiry (hp a) + SynchAllowance P * 2 < now)
       \<and> (\<not> Expiry (hp a) + SynchAllowance P * 2 < now \<longrightarrow> fst (add P now a hp wh) = Inr ())
       \<and> snd (snd (add P now a hp wh)) = wh
       \<and> fst (snd (add P now a hp wh)) = hp(a := scoredEnvelope P now (hp a))
       \<and> (Expiry (hp a) = now - SynchAllowance P * 2 - 1
            \<longrightarrow> fst (add P now a hp wh) = Inl VeryOldMessage)
       \<and> (Expiry (hp a) = now - 1 \<and> 0 < SynchAllowance P
            \<and> unat now + 2 * unat (SynchAllowance P) \<le> 2 ^ 32
            \<longrightarrow> fst (add P now a hp wh) = Inr ())"
proof -
  let ?h = "hp(a := scoredEnvelope P now (hp a))"
  have eq: "add P now a hp wh =
      (if Expiry (hp a) + SynchAllowance P * 2 < now then (Inl VeryOldMessage, ?h, wh)
       else (Inr (), ?h, wh))"
    using assms by (simp add: add_eq_add_checks add_checks_def)
  have ex1: "Expiry (hp a) + SynchAllowance P * 2 < now"
    if "Expiry (hp a) = now - SynchAllowance P * 2 - 1"
  proof -
    have "now - 1 < now" using assms(1) by (rule word_pred_less)
    then show ?thesis by (simp add: that)
  qed
  have ex2: "\<not> Expiry (hp a) + SynchAllowance P * 2 < now"
    if "Expiry (hp a) = now - 1" "0 < SynchAllowance P"
       "unat now + 2 * unat (SynchAllowance P) \<le> 2 ^ 32"
  proof -
    have "\<not> now - 1 + SynchAllowance P * 2 < now"
      using that(2,3) assms(1) by (rule word_within_allowance)
    then show ?thesis by (simp add: that(1))
  qed
  show ?thesis using eq ex1 ex2 by auto
qed

theorem add_staleness_boundary_witness:
  "fst (add exampleParams 1700000000 3 (\<lambda>x. exampleEnvelope\<lparr>Expiry := 1699999999\<rparr>) NewWhisper) = Inr ()
   \<and> snd (snd (add exampleParams 1700000000 3 (\<lambda>x. exampleEnvelope\<lparr>Expiry := 1699999999\<rparr>) NewWhisper))
       = NewWhisper
   \<and> fst (add exampleParams 1700000000 3 (\<lambda>x. exampleEnvelope\<lparr>Expiry := 1699999979\<rparr>) NewWhisper)
       = Inl VeryOldMessage
   \<and> snd (snd (add exampleParams 1700000000 3 (\<lambda>x. exampleEnvelope\<lparr>Expiry := 1699999979\<rparr>) NewWhisper))
       = NewWhisper"
proof -
  let ?now = "1700000000 :: u32"
  let ?hp = "\<lambda>x::addr. exampleEnvelope\<lparr>Expiry := 1699999999\<rparr>"
  have h1: "Expiry (?hp 3) < ?now" by simp
  have h2: "\<not> (?now < Expiry (?hp 3) - TTL (?hp 3)
               \<and> ?now < Expiry (?hp 3) - TTL (?hp 3) - SynchAllowance exampleParams)" by simp
  have h3: "Expiry (?hp 3) = ?now - 1 \<and> 0 < SynchAllowance exampleParams
            \<and> unat ?now + 2 * unat (SynchAllowance exampleParams) \<le> 2 ^ 32" by simp
  from add_staleness_boundary[where hp = ?hp and a = 3 and now = ?now and P = exampleParams and wh = NewWhisper] h1 h2 h3
  have 1: "fst (add exampleParams ?now 3 ?hp NewWhisper) = Inr ()"
    and 2: "snd (snd (add exampleParams ?now 3 ?hp NewWhisper)) = NewWhisper"
    by blast+
  let ?old = "\<lambda>x::addr. exampleEnvelope\<lparr>Expiry := 1699999979\<rparr>"
  have o1: "Expiry (?old 3) < ?now" by simp
  have o2: "\<not> (?now < Expiry (?old 3) - TTL (?old 3)
               \<and> ?now < Expiry (?old 3) - TTL (?old 3) - SynchAllowance exampleParams)" by simp
  have o3: "Expiry (?old 3) = ?now - SynchAllowance exampleParams * 2 - 1" by simp
  from add_staleness_boundary[where hp = ?old and a = 3 and now = ?now and P = exampleParams and wh = NewWhisper] o1 o2 o3
  have 3: "fst (add exampleParams ?now 3 ?old NewWhisper) = Inl VeryOldMessage"
    and 4: "snd (snd (add exampleParams ?now 3 ?old NewWhisper)) = NewWhisper"
    by blast+
  from 1 2 3 4 show ?thesis by blast
qed

text \<open>
  Claim C3, as it is stated, fails on an envelope whose time to live exceeds its
  expiry: with \<open>Expiry = 1000\<close> and \<open>TTL = 2000\<close> at \<open>now = 1700000000\<close>, the envelope is
  expired by more than twice the allowance, and \<^verbatim>\<open>add\<close> returns "message created in the
  future", not "very old message"; with \<open>Expiry = now - 1\<close> and \<open>TTL = now\<close> the envelope is
  marginally expired and \<^verbatim>\<open>add\<close> returns the same error, not success.
\<close>

theorem add_staleness_counterexample:
  "Expiry (exampleEnvelope\<lparr>Expiry := 1000, TTL := 2000\<rparr>) < 1700000000
   \<and> Expiry (exampleEnvelope\<lparr>Expiry := 1000, TTL := 2000\<rparr>) + SynchAllowance exampleParams * 2 < 1700000000
   \<and> fst (add exampleParams 1700000000 3 (\<lambda>x. exampleEnvelope\<lparr>Expiry := 1000, TTL := 2000\<rparr>) NewWhisper)
       = Inl MessageCreatedInTheFuture
   \<and> fst (add exampleParams 1700000000 3 (\<lambda>x. exampleEnvelope\<lparr>Expiry := 1000, TTL := 2000\<rparr>) NewWhisper)
       \<noteq> Inl VeryOldMessage
   \<and> Expiry (exampleEnvelope\<lparr>Expiry := 1699999999, TTL := 1700000000\<rparr>) < 1700000000
   \<and> \<not> Expiry (exampleEnvelope\<lparr>Expiry := 1699999999, TTL := 1700000000\<rparr>)
         + SynchAllowance exampleParams * 2 < 1700000000
   \<and> fst (add exampleParams 1700000000 3
        (\<lambda>x. exampleEnvelope\<lparr>Expiry := 1699999999, TTL := 1700000000\<rparr>) NewWhisper)
       = Inl MessageCreatedInTheFuture"
  by (simp add: add_def Let_def)

section \<open>The proof-of-work gate\<close>




section \<open>One sweep\<close>

text \<open>
  Claim C5. In a state that the node reaches, one run of \<^verbatim>\<open>expire\<close> at the time \<open>now\<close>
  keeps the timestamps of the expiration index; for every bucket of a timestamp at or
  before \<open>now\<close> it deletes every hash of the bucket from the envelope map and from the
  message map and leaves the bucket in the index, empty; and every bucket of a later
  timestamp is left as it is, with the envelopes and the messages of its hashes.
\<close>

theorem expire_sweep:
  fixes P :: "('p::ord) params"
  assumes "reachable P hp w"
  shows "map fst (expirations (expire now w)) = map fst (expirations w)
       \<and> (\<forall>t s. (t, s) \<in> set (expirations w) \<and> t \<le> now
             \<longrightarrow> (t, []) \<in> set (expirations (expire now w))
               \<and> (\<forall>h \<in> set s. envelopes (expire now w) h = None
                               \<and> messages (expire now w) h = None))
       \<and> (\<forall>t s. (t, s) \<in> set (expirations w) \<and> now < t
             \<longrightarrow> (t, s) \<in> set (expirations (expire now w))
               \<and> (\<forall>h \<in> set s. envelopes (expire now w) h = envelopes w h
                               \<and> messages (expire now w) h = messages w h))"
proof -
  from assms have inv: "pool_inv hp w" by (rule reachable_pool_inv)
  then have Dk: "distinct (map fst (expirations w))" unfolding pool_inv_def by blast
  have Dk': "distinct (map fst (expirations (expire now w)))" using Dk by (simp add: expire_keys)
  have J: "\<And>t s h. map_of (expirations w) t = Some s \<Longrightarrow> h \<in> set s
             \<Longrightarrow> \<exists>x. envelopes w h = Some x \<and> Expiry (hp x) = t"
    using inv unfolding pool_inv_def by blast
  have stale: "(t, []) \<in> set (expirations (expire now w))
               \<and> (\<forall>h \<in> set s. envelopes (expire now w) h = None \<and> messages (expire now w) h = None)"
    if a: "(t, s) \<in> set (expirations w) \<and> t \<le> now" for t s
  proof -
    from a have "t \<in> fst ` set (expirations w)" by (auto intro: rev_image_eqI)
    with a have "map_of (expirations (expire now w)) t = Some []" by (simp add: expire_map_of)
    then have 1: "(t, []) \<in> set (expirations (expire now w))" by (rule map_of_SomeD)
    have "\<And>h. h \<in> set s \<Longrightarrow> h \<in> staleHashes now (expirations w)"
      using a by (auto simp: staleHashes_def)
    then have 2: "\<forall>h \<in> set s. envelopes (expire now w) h = None \<and> messages (expire now w) h = None"
      by (simp add: expire_envelopes expire_messages)
    from 1 2 show ?thesis by blast
  qed
  have later: "(t, s) \<in> set (expirations (expire now w))
               \<and> (\<forall>h \<in> set s. envelopes (expire now w) h = envelopes w h
                               \<and> messages (expire now w) h = messages w h)"
    if a: "(t, s) \<in> set (expirations w) \<and> now < t" for t s
  proof -
    from a Dk have old: "map_of (expirations w) t = Some s" by simp
    from a have "\<not> t \<le> now" by (simp add: not_le)
    with old have "map_of (expirations (expire now w)) t = Some s" by (simp add: expire_map_of)
    then have 1: "(t, s) \<in> set (expirations (expire now w))" by (rule map_of_SomeD)
    have "h \<notin> staleHashes now (expirations w)" if h: "h \<in> set s" for h
    proof
      assume "h \<in> staleHashes now (expirations w)"
      then obtain t' s' where b: "map_of (expirations w) t' = Some s'" "t' \<le> now" "h \<in> set s'"
        by (auto simp: staleHashes_map_of[OF Dk])
      from J[OF old h] J[OF b(1) b(3)] have "t' = t" by auto
      with b(2) a show False by (simp add: not_le[symmetric])
    qed
    then have 2: "\<forall>h \<in> set s. envelopes (expire now w) h = envelopes w h
                               \<and> messages (expire now w) h = messages w h"
      by (simp add: expire_envelopes expire_messages)
    from 1 2 show ?thesis by blast
  qed
  from expire_keys[of now w] stale later show ?thesis by blast
qed

theorem expire_sweep_witness:
  "reachable exampleParams exampleStore1 exampleNode
   \<and> (1700000060, [11259375]) \<in> set (expirations exampleNode)
   \<and> (1700000060, []) \<in> set (expirations (expire 1700000060 exampleNode))
   \<and> envelopes (expire 1700000060 exampleNode) 11259375 = None
   \<and> messages (expire 1700000060 exampleNode) 11259375 = None
   \<and> (1700000060, [11259375]) \<in> set (expirations (expire 1700000059 exampleNode))
   \<and> envelopes (expire 1700000059 exampleNode) 11259375 = envelopes exampleNode 11259375"
proof -
  have b: "(1700000060, [11259375]) \<in> set (expirations exampleNode)" by simp
  have le: "(1700000060 :: u32) \<le> 1700000060" and lt: "(1700000059 :: u32) < 1700000060"
    by simp_all
  from expire_sweep[OF exampleNode_reachable, of 1700000060] b le
  have 1: "(1700000060, []) \<in> set (expirations (expire 1700000060 exampleNode))
           \<and> envelopes (expire 1700000060 exampleNode) 11259375 = None
           \<and> messages (expire 1700000060 exampleNode) 11259375 = None"
    by fastforce
  from expire_sweep[OF exampleNode_reachable, of 1700000059] b lt
  have 2: "(1700000060, [11259375]) \<in> set (expirations (expire 1700000059 exampleNode))
           \<and> envelopes (expire 1700000059 exampleNode) 11259375 = envelopes exampleNode 11259375"
    by fastforce
  from exampleNode_reachable b 1 2 show ?thesis by blast
qed

section \<open>The expiration index\<close>

text \<open>
  Claim C6. In every state that the node reaches from \<^verbatim>\<open>NewWhisper\<close> by \<^verbatim>\<open>add\<close>,
  \<^verbatim>\<open>expire\<close> and \<^verbatim>\<open>addDecryptedMessage\<close>, the timestamps of the expiration index are
  distinct, and every hash of the envelope map is listed in the bucket of the expiry
  time of its envelope, once, and in no bucket of another timestamp.
\<close>

theorem expiration_index_invariant:
  fixes P :: "('p::ord) params"
  assumes "reachable P hp w" and "envelopes w h = Some a"
  shows "distinct (map fst (expirations w))
       \<and> (\<exists>s. (Expiry (hp a), s) \<in> set (expirations w) \<and> h \<in> set s \<and> distinct s)
       \<and> (\<forall>t s. (t, s) \<in> set (expirations w) \<and> h \<in> set s \<longrightarrow> t = Expiry (hp a))"
proof -
  from assms(1) have inv: "pool_inv hp w" by (rule reachable_pool_inv)
  then have Dk: "distinct (map fst (expirations w))" unfolding pool_inv_def by blast
  from inv assms(2) obtain s where s: "map_of (expirations w) (Expiry (hp a)) = Some s" "h \<in> set s"
    unfolding pool_inv_def by blast
  from inv s(1) have "distinct s" unfolding pool_inv_def by blast
  with s have 1: "\<exists>s. (Expiry (hp a), s) \<in> set (expirations w) \<and> h \<in> set s \<and> distinct s"
    by (blast dest: map_of_SomeD)
  have 2: "t = Expiry (hp a)" if "(t, s') \<in> set (expirations w) \<and> h \<in> set s'" for t s'
  proof -
    from that Dk have "map_of (expirations w) t = Some s'" by simp
    with inv that obtain x where "envelopes w h = Some x" "Expiry (hp x) = t"
      unfolding pool_inv_def by blast
    with assms(2) show ?thesis by simp
  qed
  from Dk 1 2 show ?thesis by blast
qed

theorem expiration_index_invariant_witness:
  "reachable exampleParams exampleStore1 exampleNode
   \<and> envelopes exampleNode 11259375 = Some 3
   \<and> distinct (map fst (expirations exampleNode))
   \<and> (\<exists>s. (Expiry (exampleStore1 3), s) \<in> set (expirations exampleNode)
          \<and> 11259375 \<in> set s \<and> distinct s)"
proof -
  have e: "envelopes exampleNode 11259375 = Some 3" by simp
  from expiration_index_invariant[OF exampleNode_reachable e] exampleNode_reachable e
  show ?thesis by blast
qed

section \<open>Messages that arrive after the sweep\<close>

text \<open>
  Claim C7 says that a decrypted message is destroyed with its envelope at sweep time,
  also when \<^verbatim>\<open>addDecryptedMessage\<close> stores it after the envelope was swept; the message map
  is declared as the pool of the decrypted messages "which are not expired yet". The
  code does not do that: \<^verbatim>\<open>expire\<close> deletes from the message map the hashes it finds in the
  buckets it sweeps, and a message stored after the bucket of its envelope was swept is
  listed in no bucket, so no later sweep deletes it. Here the sample envelope (expiry
  1700000060) is added, swept at its expiry time, and then its decrypted message
  arrives: the state is one the node reaches, the envelope is gone, and the message
  stays in the message map through every later sequence of sweeps.
\<close>

theorem late_message_never_swept:
  "reachable exampleParams exampleStore1
     (addDecryptedMessage exampleMessage (expire 1700000060 exampleNode))
   \<and> Expiry (exampleStore1 3) \<le> 1700000060
   \<and> envelopes exampleNode (EnvelopeHash exampleMessage) = Some 3
   \<and> envelopes (addDecryptedMessage exampleMessage (expire 1700000060 exampleNode))
        (EnvelopeHash exampleMessage) = None
   \<and> (\<forall>nows. messages (fold expire nows
          (addDecryptedMessage exampleMessage (expire 1700000060 exampleNode)))
        (EnvelopeHash exampleMessage) = Some exampleMessage)"
proof -
  let ?w2 = "expire 1700000060 exampleNode"
  let ?w3 = "addDecryptedMessage exampleMessage ?w2"
  have h: "EnvelopeHash exampleMessage = 11259375" by (simp add: exampleMessage_def)
  have r: "reachable exampleParams exampleStore1 ?w3"
    by (intro reachable_addDecryptedMessage reachable_expire exampleNode_reachable)
  have w2: "expirations ?w2 = [(1700000060, [])]"
    by (simp add: expire_def dumpExpired_eq)
  have w3: "expirations ?w3 = [(1700000060, [])]"
    by (simp add: addDecryptedMessage_def w2)
  have e: "envelopes ?w3 (EnvelopeHash exampleMessage) = None"
    by (simp add: addDecryptedMessage_def expire_envelopes h)
  have m: "messages ?w3 (EnvelopeHash exampleMessage) = Some exampleMessage"
    by (simp add: addDecryptedMessage_def)
  have "messages (fold expire nows ?w3) (EnvelopeHash exampleMessage) = Some exampleMessage" for nows
  proof -
    have "messages (fold expire nows ?w3) (EnvelopeHash exampleMessage)
          = messages ?w3 (EnvelopeHash exampleMessage)"
      by (rule sweeps_unlisted) (simp_all add: w3)
    with m show ?thesis by simp
  qed
  with r e show ?thesis by (simp add: h)
qed

section \<open>Names of symmetric keys, deletion\<close>

text \<open>
  Claim C8 (as amended). When the key store has a symmetric key of the name,
  \<^verbatim>\<open>AddSymKey\<close> with that name returns the duplicate-name error, and \<^verbatim>\<open>GenerateSymKey\<close>
  with that name returns an error: the error of generating or deriving the key material
  if that fails (lines 163 to 186), and the duplicate-name error otherwise. Neither
  changes the node, so the stored key stays as it is. After \<^verbatim>\<open>DeleteSymKey\<close> of a name
  \<^verbatim>\<open>HasSymKey\<close> of it is false, and after \<^verbatim>\<open>DeleteIdentity\<close> of a key \<^verbatim>\<open>HasIdentity\<close> of it is
  false.
\<close>

theorem symkey_uniqueness:
  assumes "HasSymKey w name"
  shows "AddSymKey P name key w = (Inl (KeyAlreadyExists name), w)
       \<and> GenerateSymKey P crand mrand name w =
           (case GenerateSymKey_derive P crand mrand of
              Inl err \<Rightarrow> (Inl err, w)
            | Inr derived \<Rightarrow> (Inl (KeyAlreadyExists name), w))
       \<and> (\<exists>err. fst (GenerateSymKey P crand mrand name w) = Inl err)
       \<and> snd (GenerateSymKey P crand mrand name w) = w
       \<and> \<not> HasSymKey (DeleteSymKey name w) name
       \<and> \<not> HasIdentity (DeleteIdentity pubKey w) pubKey"
proof -
  have g: "GenerateSymKey P crand mrand name w =
     (case GenerateSymKey_derive P crand mrand of
        Inl err \<Rightarrow> (Inl err, w)
      | Inr derived \<Rightarrow> (Inl (KeyAlreadyExists name), w))"
    using assms by (rule GenerateSymKey_present)
  have e: "\<exists>err. fst (GenerateSymKey P crand mrand name w) = Inl err"
    unfolding g by (cases "GenerateSymKey_derive P crand mrand") simp_all
  have u: "snd (GenerateSymKey P crand mrand name w) = w"
    unfolding g by (cases "GenerateSymKey_derive P crand mrand") simp_all
  have d: "\<not> HasSymKey (DeleteSymKey name w) name" "\<not> HasIdentity (DeleteIdentity pubKey w) pubKey"
    by (simp_all add: HasSymKey_def DeleteSymKey_def HasIdentity_def DeleteIdentity_def)
  from AddSymKey_present[OF assms] g e u d show ?thesis by blast
qed

theorem symkey_uniqueness_witness:
  "HasSymKey (snd (AddSymKey exampleParams ''alice'' [1, 2, 3] NewWhisper)) ''alice''
   \<and> AddSymKey exampleParams ''alice'' [9] (snd (AddSymKey exampleParams ''alice'' [1, 2, 3] NewWhisper))
       = (Inl (KeyAlreadyExists ''alice''), snd (AddSymKey exampleParams ''alice'' [1, 2, 3] NewWhisper))
   \<and> GenerateSymKey exampleParams (Inr (\<lambda>i. 1)) (\<lambda>i. of_nat i + 2) ''alice''
         (snd (AddSymKey exampleParams ''alice'' [1, 2, 3] NewWhisper))
       = (Inl (KeyAlreadyExists ''alice''), snd (AddSymKey exampleParams ''alice'' [1, 2, 3] NewWhisper))
   \<and> GetSymKey (snd (AddSymKey exampleParams ''alice'' [1, 2, 3] NewWhisper)) ''alice'' = Some [1, 2]"
proof -
  let ?w = "snd (AddSymKey exampleParams ''alice'' [1, 2, 3] NewWhisper)"
  have h: "HasSymKey ?w ''alice''" by (simp add: example_AddSymKey HasSymKey_def)
  have k: "GetSymKey ?w ''alice'' = Some [1, 2]" by (simp add: example_AddSymKey GetSymKey_def)
  from symkey_uniqueness[OF h, of exampleParams "[9]" "Inr (\<lambda>i. 1)" "\<lambda>i. of_nat i + 2"] h k
  show ?thesis by (simp add: example_derive)
qed

text \<open>
  Claim C8, as it is stated, fails for \<^verbatim>\<open>GenerateSymKey\<close> when \<^verbatim>\<open>crand.Read\<close> fails: the
  function returns that error at line 165, before it looks the name up, so a call with
  a name that is present does not return the duplicate-name error.
\<close>

theorem symkey_uniqueness_counterexample:
  "HasSymKey (snd (AddSymKey exampleParams ''alice'' [1, 2, 3] NewWhisper)) ''alice''
   \<and> fst (GenerateSymKey exampleParams (Inl (ExternalError ''crand.Read'')) (\<lambda>i. of_nat i + 2) ''alice''
         (snd (AddSymKey exampleParams ''alice'' [1, 2, 3] NewWhisper)))
       = Inl (ExternalError ''crand.Read'')
   \<and> fst (GenerateSymKey exampleParams (Inl (ExternalError ''crand.Read'')) (\<lambda>i. of_nat i + 2) ''alice''
         (snd (AddSymKey exampleParams ''alice'' [1, 2, 3] NewWhisper)))
       \<noteq> Inl (KeyAlreadyExists ''alice'')"
  by (simp add: example_AddSymKey HasSymKey_def GenerateSymKey_def GenerateSymKey_derive_def)

section \<open>Generation of an identity\<close>

text \<open>
  Claim C9. \<^verbatim>\<open>NewIdentity\<close> calls the key generator once when the first key comes
  without an error and is valid, and twice otherwise: it retries once. After a retry,
  a key that is still invalid makes it panic with "Failed to generate valid key", and an
  error of the generator makes it panic with that error; a panic stores nothing. A key
  that \<^verbatim>\<open>NewIdentity\<close> returns is valid, and it is stored under its public key.
\<close>

theorem NewIdentity_retry_once:
  "snd (snd (NewIdentity P gen w))
     = (if snd (gen 0) = None \<and> validatePrivateKey (fst (gen 0)) then 1 else 2)
   \<and> (\<not> (snd (gen 0) = None \<and> validatePrivateKey (fst (gen 0)))
        \<and> snd (gen 1) = None \<and> \<not> validatePrivateKey (fst (gen 1))
        \<longrightarrow> NewIdentity P gen w = (Inl PanicFailedToGenerateValidKey, w, 2))
   \<and> (\<forall>err. \<not> (snd (gen 0) = None \<and> validatePrivateKey (fst (gen 0)))
        \<and> snd (gen 1) = Some err
        \<longrightarrow> NewIdentity P gen w = (Inl (PanicError err), w, 2))
   \<and> (\<forall>k. \<not> (snd (gen 0) = None \<and> validatePrivateKey (fst (gen 0)))
        \<and> gen 1 = (Some k, None) \<and> validatePrivateKey (Some k)
        \<longrightarrow> NewIdentity P gen w
              = (Inr k, w\<lparr>privateKeys := (privateKeys w)(pubKeyHex P (PublicKey k) \<mapsto> k)\<rparr>, 2))
   \<and> (\<forall>k. fst (NewIdentity P gen w) = Inr k
        \<longrightarrow> validatePrivateKey (Some k)
          \<and> HasIdentity (fst (snd (NewIdentity P gen w))) (pubKeyHex P (PublicKey k))
          \<and> GetIdentity (fst (snd (NewIdentity P gen w))) (pubKeyHex P (PublicKey k)) = Some k)
   \<and> (\<forall>p. fst (NewIdentity P gen w) = Inl p \<longrightarrow> fst (snd (NewIdentity P gen w)) = w)"
proof -
  obtain key0 err0 where g0: "gen 0 = (key0, err0)" by (cases "gen 0")
  obtain key1 err1 where g1: "gen (Suc 0) = (key1, err1)" by (cases "gen (Suc 0)")
  have vn: "\<not> validatePrivateKey None" by (simp add: validatePrivateKey_def)
  show ?thesis
    using vn
    by (cases key0; cases err0; cases key1; cases err1)
       (auto simp: NewIdentity_def g0 g1 Let_def HasIdentity_def GetIdentity_def)
qed

theorem NewIdentity_retry_once_witness:
  "NewIdentity exampleParams
       (\<lambda>n. if n = 0 then (Some (exampleKey\<lparr>D := Some 0\<rparr>), None) else (Some exampleKey, None))
       NewWhisper
     = (Inr exampleKey,
        NewWhisper\<lparr>privateKeys := [pubKeyHex exampleParams (PublicKey exampleKey) \<mapsto> exampleKey]\<rparr>, 2)
   \<and> NewIdentity exampleParams (\<lambda>n. (Some (exampleKey\<lparr>D := Some 0\<rparr>), None)) NewWhisper
     = (Inl PanicFailedToGenerateValidKey, NewWhisper, 2)
   \<and> NewIdentity exampleParams (\<lambda>n. (None, Some (ExternalError ''rand''))) NewWhisper
     = (Inl (PanicError (ExternalError ''rand'')), NewWhisper, 2)
   \<and> snd (snd (NewIdentity exampleParams (\<lambda>n. (Some exampleKey, None)) NewWhisper)) = 1
   \<and> validatePrivateKey (Some exampleKey)"
proof -
  let ?bad = "exampleKey\<lparr>D := Some 0\<rparr>"
  let ?gen1 = "\<lambda>n::nat. if n = 0 then (Some ?bad, None :: error option) else (Some exampleKey, None)"
  let ?gen2 = "\<lambda>n::nat. (Some ?bad, None :: error option)"
  let ?gen3 = "\<lambda>n::nat. (None :: PrivateKey option, Some (ExternalError ''rand''))"
  let ?gen4 = "\<lambda>n::nat. (Some exampleKey, None :: error option)"
  from NewIdentity_retry_once[of exampleParams ?gen1 NewWhisper] exampleKey_valid
  have 1: "NewIdentity exampleParams ?gen1 NewWhisper
     = (Inr exampleKey,
        NewWhisper\<lparr>privateKeys := [pubKeyHex exampleParams (PublicKey exampleKey) \<mapsto> exampleKey]\<rparr>, 2)"
    by simp
  from NewIdentity_retry_once[of exampleParams ?gen2 NewWhisper] exampleKey_valid
  have 2: "NewIdentity exampleParams ?gen2 NewWhisper = (Inl PanicFailedToGenerateValidKey, NewWhisper, 2)"
    by simp
  from NewIdentity_retry_once[of exampleParams ?gen3 NewWhisper]
  have 3: "NewIdentity exampleParams ?gen3 NewWhisper
            = (Inl (PanicError (ExternalError ''rand'')), NewWhisper, 2)"
    by simp
  from NewIdentity_retry_once[of exampleParams ?gen4 NewWhisper] exampleKey_valid
  have 4: "snd (snd (NewIdentity exampleParams ?gen4 NewWhisper)) = 1"
    by simp
  from 1 2 3 4 exampleKey_valid(1) show ?thesis by blast
qed

section \<open>A time to live beyond the expiry\<close>

text \<open>
  Claim C10. \<open>sent\<close> is the 32-bit difference \<open>Expiry - TTL\<close>: when the time to live
  exceeds the expiry, it wraps around to \<open>Expiry + 2^32 - TTL\<close>. Whenever that value
  exceeds \<open>now + SynchAllowance\<close>, and so whenever \<open>TTL - Expiry + now + SynchAllowance\<close> is
  below \<open>2^32\<close>, \<^verbatim>\<open>add\<close> returns "message created in the future" and changes nothing: the
  envelope is not handled as an expired one.
\<close>

theorem add_ttl_underflow:
  fixes P :: "('p::ord) params"
  assumes "Expiry (hp a) < TTL (hp a)"
  shows "unat (Expiry (hp a) - TTL (hp a)) = unat (Expiry (hp a)) + 2 ^ 32 - unat (TTL (hp a))
       \<and> (unat now + unat (SynchAllowance P) < unat (Expiry (hp a) - TTL (hp a))
            \<longrightarrow> add P now a hp wh = (Inl MessageCreatedInTheFuture, hp, wh))
       \<and> (unat (TTL (hp a)) - unat (Expiry (hp a)) + unat now + unat (SynchAllowance P) < 2 ^ 32
            \<longrightarrow> add P now a hp wh = (Inl MessageCreatedInTheFuture, hp, wh))"
proof -
  let ?sent = "Expiry (hp a) - TTL (hp a)"
  have wrap: "unat ?sent = unat (Expiry (hp a)) + 2 ^ 32 - unat (TTL (hp a))"
    using assms by (simp add: unat_sub_if' word_less_nat_alt)
  have reject: "add P now a hp wh = (Inl MessageCreatedInTheFuture, hp, wh)"
    if "unat now + unat (SynchAllowance P) < unat ?sent"
  proof -
    have "now < ?sent" using that by unat_arith
    moreover have "now < ?sent - SynchAllowance P" using that by unat_arith
    ultimately show ?thesis by (simp add: add_def Let_def)
  qed
  have small: "unat now + unat (SynchAllowance P) < unat ?sent"
    if "unat (TTL (hp a)) - unat (Expiry (hp a)) + unat now + unat (SynchAllowance P) < 2 ^ 32"
  proof -
    have "unat (Expiry (hp a)) < unat (TTL (hp a))" using assms by (simp add: word_less_nat_alt)
    with that wrap show ?thesis by simp
  qed
  show ?thesis using wrap reject small by blast
qed

theorem add_ttl_underflow_witness:
  "Expiry (exampleEnvelope\<lparr>Expiry := 1000, TTL := 2000\<rparr>) < TTL (exampleEnvelope\<lparr>Expiry := 1000, TTL := 2000\<rparr>)
   \<and> add exampleParams 1700000000 3 (\<lambda>x. exampleEnvelope\<lparr>Expiry := 1000, TTL := 2000\<rparr>) NewWhisper
       = (Inl MessageCreatedInTheFuture, \<lambda>x. exampleEnvelope\<lparr>Expiry := 1000, TTL := 2000\<rparr>, NewWhisper)"
proof -
  let ?hp = "\<lambda>x::addr. exampleEnvelope\<lparr>Expiry := 1000, TTL := 2000\<rparr>"
  have h: "Expiry (?hp 3) < TTL (?hp 3)" by simp
  have s: "unat (TTL (?hp 3)) - unat (Expiry (?hp 3)) + unat (1700000000 :: u32)
             + unat (SynchAllowance exampleParams) < 2 ^ 32"
    by simp
  from add_ttl_underflow[where hp = ?hp and a = 3 and now = "1700000000" and P = exampleParams and wh = NewWhisper] h s
  have "add exampleParams 1700000000 3 ?hp NewWhisper = (Inl MessageCreatedInTheFuture, ?hp, NewWhisper)"
    by blast
  then show ?thesis by simp
qed

end
